theory Spec2Isabelle
  imports Main "HOL-Library.Sublist"
begin

section \<open>Python values used by prox2vmx.py\<close>

text \<open>
  A Python \<open>str\<close> is modelled as \<^typ>\<open>string\<close>. A \<^typ>\<open>char\<close> stands for the code point
  of the same number, so the model covers the texts whose code points are below 256.
  The character classes below are Python's own on that range: \<open>str.strip\<close> removes the
  twelve characters of \<open>py_whitespace\<close>, the pattern \<open>\d\<close> matches the ten ASCII
  digits, and \<open>str.isdigit\<close> also accepts the superscripts U+00B2, U+00B3 and U+00B9,
  which \<open>int()\<close> refuses.
\<close>

datatype error = ValueError | KeyError | IndexError | CalledProcessError | UnicodeDecodeError

definition bind :: "error + 'a \<Rightarrow> ('a \<Rightarrow> error + 'b) \<Rightarrow> error + 'b" where
  "bind m f = (case m of Inl e \<Rightarrow> Inl e | Inr x \<Rightarrow> f x)"

definition py_whitespace :: "char \<Rightarrow> bool" where
  "py_whitespace c = (c \<in> set [CHR 0x09, CHR 0x0A, CHR 0x0B, CHR 0x0C, CHR 0x0D,
     CHR 0x1C, CHR 0x1D, CHR 0x1E, CHR 0x1F, CHR 0x20, CHR 0x85, CHR 0xA0])"

definition py_strip :: "string \<Rightarrow> string" where
  "py_strip s = rev (dropWhile py_whitespace (rev (dropWhile py_whitespace s)))"

definition re_digit :: "char \<Rightarrow> bool" where
  "re_digit c = (c \<in> set ''0123456789'')"

definition py_isdigit :: "char \<Rightarrow> bool" where
  "py_isdigit c = (re_digit c \<or> c \<in> set [CHR 0xB2, CHR 0xB3, CHR 0xB9])"

definition startswith :: "string \<Rightarrow> string \<Rightarrow> bool" where
  "startswith s p = prefix p s"

text \<open>\<open>find_sub sep s\<close> cuts \<open>s\<close> at the first occurrence of \<open>sep\<close>: the text before it
  and the text after it.\<close>

fun find_sub :: "string \<Rightarrow> string \<Rightarrow> (string \<times> string) option" where
  "find_sub sep [] = (if sep = [] then Some ([], []) else None)"
| "find_sub sep (c # cs) =
     (if prefix sep (c # cs) then Some ([], drop (length sep) (c # cs))
      else map_option (\<lambda>(a, b). (c # a, b)) (find_sub sep cs))"

text \<open>\<open>sub in s\<close>\<close>

definition py_in :: "string \<Rightarrow> string \<Rightarrow> bool" where
  "py_in sub s = (find_sub sub s \<noteq> None)"

text \<open>\<open>s.split(sep, maxsplit)\<close> and \<open>s.split(sep)\<close> for a separator that is not empty (Python
  raises ValueError on an empty one; every call of the program passes a literal).\<close>

fun py_split_max :: "string \<Rightarrow> nat \<Rightarrow> string \<Rightarrow> string list" where
  "py_split_max sep 0 s = [s]"
| "py_split_max sep (Suc n) s =
     (case find_sub sep s of
        None \<Rightarrow> [s]
      | Some (a, b) \<Rightarrow> a # py_split_max sep n b)"

text \<open>Without \<open>maxsplit\<close> every occurrence splits; a text of \<open>length s\<close> characters holds at
  most \<open>length s\<close> occurrences of a separator that is not empty.\<close>

definition py_split :: "string \<Rightarrow> string \<Rightarrow> string list" where
  "py_split sep s = py_split_max sep (length s) s"

text \<open>\<open>xs[i]\<close> for \<open>i \<ge> 0\<close>\<close>

fun py_index :: "'a list \<Rightarrow> nat \<Rightarrow> error + 'a" where
  "py_index [] i = Inl IndexError"
| "py_index (x # xs) 0 = Inr x"
| "py_index (x # xs) (Suc i) = py_index xs i"

text \<open>\<open>a, b = xs\<close>\<close>

fun unpack2 :: "'a list \<Rightarrow> error + ('a \<times> 'a)" where
  "unpack2 [a, b] = Inr (a, b)"
| "unpack2 xs = Inl ValueError"

subsection \<open>Dictionaries\<close>

text \<open>A \<open>dict\<close> keeps its keys in insertion order; storing under a key that is present
  replaces the value in place.\<close>

type_synonym 'v pydict = "(string \<times> 'v) list"

fun dict_set :: "string \<Rightarrow> 'v \<Rightarrow> 'v pydict \<Rightarrow> 'v pydict" where
  "dict_set k v [] = [(k, v)]"
| "dict_set k v ((k', v') # d) =
     (if k' = k then (k, v) # d else (k', v') # dict_set k v d)"

definition dict_get :: "'v pydict \<Rightarrow> string \<Rightarrow> 'v option" where
  "dict_get d k = map_of d k"

definition dict_get_default :: "'v pydict \<Rightarrow> string \<Rightarrow> 'v \<Rightarrow> 'v" where
  "dict_get_default d k dflt = (case map_of d k of None \<Rightarrow> dflt | Some v \<Rightarrow> v)"

definition dict_contains :: "string \<Rightarrow> 'v pydict \<Rightarrow> bool" where
  "dict_contains k d = (map_of d k \<noteq> None)"

definition dict_item :: "'v pydict \<Rightarrow> string \<Rightarrow> error + 'v" where
  "dict_item d k = (case map_of d k of None \<Rightarrow> Inl KeyError | Some v \<Rightarrow> Inr v)"

section \<open>\<open>parse_conf\<close>\<close>

text \<open>
  Iterating over a file opened in text mode yields its lines under universal newlines:
  \<open>\n\<close>, \<open>\r\<close> and \<open>\r\n\<close> each end a line and are handed over as \<open>\n\<close>.
\<close>

fun file_lines_acc :: "bool \<Rightarrow> string \<Rightarrow> string \<Rightarrow> string list" where
  "file_lines_acc after_cr cur [] = (if cur = [] then [] else [rev cur])"
| "file_lines_acc after_cr cur (c # cs) =
     (if c = CHR 0x0A then
        (if after_cr then file_lines_acc False cur cs
         else rev (CHR 0x0A # cur) # file_lines_acc False [] cs)
      else if c = CHR 0x0D then rev (CHR 0x0A # cur) # file_lines_acc True [] cs
      else file_lines_acc False (c # cur) cs)"

definition file_lines :: "string \<Rightarrow> string list" where
  "file_lines text = file_lines_acc False [] text"

definition parse_line :: "string pydict \<Rightarrow> string \<Rightarrow> error + string pydict" where
  "parse_line cfg line0 =
     (let line = py_strip line0 in
      if line = [] \<or> \<not> py_in '':'' line then Inr cfg
      else bind (unpack2 (py_split_max '':'' 1 line))
             (\<lambda>(key, val). Inr (dict_set (py_strip key) (py_strip val) cfg)))"

fun parse_lines :: "string pydict \<Rightarrow> string list \<Rightarrow> error + string pydict" where
  "parse_lines cfg [] = Inr cfg"
| "parse_lines cfg (l # ls) = bind (parse_line cfg l) (\<lambda>cfg'. parse_lines cfg' ls)"

definition parse_conf :: "string \<Rightarrow> error + string pydict" where
  "parse_conf text = parse_lines [] (file_lines text)"

section \<open>\<open>process_conf\<close>\<close>

definition GUESTOS_MAP :: "string pydict" where
  "GUESTOS_MAP =
     [(''win11'', ''windows2019srvNext-64''),
      (''win10'', ''windows2019srv-64''),
      (''win8'', ''windows8srv-64''),
      (''win7'', ''windows7srv-64''),
      (''w2k8'', ''longhorn-64''),
      (''wxp'', ''winNetEnterprise-64''),
      (''l26'', ''otherlinux-64''),
      (''l24'', ''other24xlinux-64'')]"

text \<open>\<open>str(n)\<close> of an integer that is not negative, as the f-strings render the counters.\<close>

fun str_nat :: "nat \<Rightarrow> string" where
  "str_nat n =
     (if n < 10 then [''0123456789'' ! n]
      else str_nat (n div 10) @ [''0123456789'' ! (n mod 10)])"

declare str_nat.simps [simp del]

definition digit_val :: "char \<Rightarrow> nat" where
  "digit_val c = of_char c - 48"

text \<open>
  \<open>int(s)\<close> for a text \<open>s\<close> of \<open>isdigit\<close> characters, which is all \<open>process_conf\<close> passes.
  It raises ValueError on the empty text, on a character that is not a decimal digit, and
  on more than \<open>maxd\<close> digits, where \<open>maxd\<close> is the interpreter's
  \<open>sys.get_int_max_str_digits()\<close>: 4300 by default since Python 3.11, and 0 for no limit,
  which is also how an older interpreter behaves.
\<close>

definition py_int :: "nat \<Rightarrow> string \<Rightarrow> error + nat" where
  "py_int maxd s =
     (if s = [] \<or> \<not> list_all re_digit s \<or> (0 < maxd \<and> maxd < length s) then Inl ValueError
      else Inr (foldl (\<lambda>a c. 10 * a + digit_val c) 0 s))"

text \<open>\<open>re.match(r"^(n1|n2|...)\d", key)\<close>: one of the names, then a digit, at the start.\<close>

definition re_match_name_digit :: "string list \<Rightarrow> string \<Rightarrow> bool" where
  "re_match_name_digit names key =
     list_ex (\<lambda>name. prefix name key \<and>
        (case drop (length name) key of [] \<Rightarrow> False | c # _ \<Rightarrow> re_digit c)) names"

text \<open>
  \<open>re.search(r"(?:n1|n2|...)=([^,]+)", s)\<close>: the leftmost position where one of the names,
  an equals sign and at least one character other than a comma follow; group 1 is the
  longest run of such characters. The alternatives are tried in their order.
\<close>

definition re_kv_here :: "string list \<Rightarrow> string \<Rightarrow> string option" where
  "re_kv_here names s =
     (case filter (\<lambda>name. prefix (name @ ''='') s \<and>
              (case drop (length name + 1) s of [] \<Rightarrow> False | c # _ \<Rightarrow> c \<noteq> CHR '','')) names of
        [] \<Rightarrow> None
      | name # _ \<Rightarrow> Some (takeWhile (\<lambda>c. c \<noteq> CHR '','') (drop (length name + 1) s)))"

fun re_search_kv :: "string list \<Rightarrow> string \<Rightarrow> string option" where
  "re_search_kv names [] = None"
| "re_search_kv names (c # cs) =
     (case re_kv_here names (c # cs) of
        Some g \<Rightarrow> Some g
      | None \<Rightarrow> re_search_kv names cs)"

record task =
  disk_file :: string
  vmdk_name :: string

record mapper_state =
  vmx_cfg :: "string pydict"
  convert_tasks :: "task list"
  disk_id :: "nat pydict"

text \<open>The test of line 132, on the whole value of the entry.\<close>

definition convertible :: "string \<Rightarrow> bool" where
  "convertible entry = (py_in ''.qcow2'' entry \<or> py_in ''.vmdk'' entry \<or> py_in ''.raw'' entry)"

text \<open>
  The body of the disk branch after the CD-ROM test (lines 120 to 137). The counters of
  \<open>disk_id\<close> are rendered by f-strings; a counter never has more digits than the
  interpreter's limit allows, so these conversions do not raise.
\<close>

definition disk_step :: "string \<Rightarrow> string \<Rightarrow> string \<Rightarrow> mapper_state \<Rightarrow> error + mapper_state" where
  "disk_step vm_name key entry s =
     (let scsi = re_match_name_digit [''scsi''] key;
          dev = (if scsi then ''scsi0'' else ''sata0'');
          vmx1 = (if scsi then dict_set ''scsi0.virtualDev'' ''lsilogic'' (vmx_cfg s) else vmx_cfg s);
          vmx2 = dict_set (dev @ ''.present'') ''TRUE'' vmx1
      in bind (py_index (py_split '','' entry) 0) (\<lambda>file.
         bind (dict_item (disk_id s) dev) (\<lambda>n.
           let vmdk = vm_name @ ''-'' @ dev @ ''-disk-'' @ str_nat n @ ''.vmdk'';
               tasks = (if convertible entry
                        then convert_tasks s @ [\<lparr>disk_file = file, vmdk_name = vmdk\<rparr>]
                        else convert_tasks s);
               vmx3 = dict_set (dev @ '':'' @ str_nat n @ ''.present'') ''TRUE'' vmx2;
               vmx4 = dict_set (dev @ '':'' @ str_nat n @ ''.fileName'') vmdk vmx3
           in Inr \<lparr>vmx_cfg = vmx4, convert_tasks = tasks,
                   disk_id = dict_set dev (n + 1) (disk_id s)\<rparr>)))"

text \<open>The body of the network branch (lines 140 to 150).\<close>

definition net_step :: "nat \<Rightarrow> bool \<Rightarrow> string \<Rightarrow> string \<Rightarrow> mapper_state \<Rightarrow> error + mapper_state" where
  "net_step maxd preserve_mac key entry s =
     bind (py_int maxd (filter py_isdigit key)) (\<lambda>nic_id.
       let m = re_search_kv [''virtio'', ''e1000'', ''e1000e'', ''vmxnet3'', ''rtl8139''] entry;
           n = re_search_kv [''bridge''] entry;
           eth = ''ethernet'' @ str_nat nic_id;
           vmx1 = dict_set (eth @ ''.addressType'') ''vpx'' (vmx_cfg s);
           vmx2 = dict_set (eth @ ''.present'') ''TRUE'' vmx1;
           vmx3 = dict_set (eth @ ''.networkName'') (case n of Some g \<Rightarrow> g | None \<Rightarrow> ''unknown'') vmx2;
           vmx4 = (if preserve_mac
                   then dict_set (eth @ ''.addressType'') ''static''
                          (dict_set (eth @ ''.address'') (case m of Some g \<Rightarrow> g | None \<Rightarrow> []) vmx3)
                   else vmx3)
       in Inr (s\<lparr>vmx_cfg := vmx4\<rparr>))"

text \<open>One turn of the loop over \<open>cfg.items()\<close>; \<open>continue\<close> leaves the state as it is.\<close>

definition process_entry ::
  "nat \<Rightarrow> bool \<Rightarrow> string \<Rightarrow> mapper_state \<Rightarrow> string \<times> string \<Rightarrow> error + mapper_state" where
  "process_entry maxd preserve_mac vm_name s kv =
     (let key = fst kv; entry = snd kv;
          is_disk = re_match_name_digit [''sata'', ''scsi'', ''efidisk''] key
      in if is_disk \<and> startswith entry ''none,media=cdrom'' then Inr s
         else bind (if is_disk then disk_step vm_name key entry s else Inr s) (\<lambda>s1.
              if re_match_name_digit [''net''] key then net_step maxd preserve_mac key entry s1
              else Inr s1))"

fun process_items ::
  "nat \<Rightarrow> bool \<Rightarrow> string \<Rightarrow> (string \<times> string) list \<Rightarrow> mapper_state \<Rightarrow> error + mapper_state" where
  "process_items maxd preserve_mac vm_name [] s = Inr s"
| "process_items maxd preserve_mac vm_name (kv # rest) s =
     bind (process_entry maxd preserve_mac vm_name s kv)
          (process_items maxd preserve_mac vm_name rest)"

definition dict_set_all :: "(string \<times> 'v) list \<Rightarrow> 'v pydict \<Rightarrow> 'v pydict" where
  "dict_set_all kvs d = foldl (\<lambda>d kv. dict_set (fst kv) (snd kv) d) d kvs"

text \<open>Lines 94 to 103.\<close>

definition scalar_cfg :: "string pydict \<Rightarrow> string pydict" where
  "scalar_cfg cfg =
     dict_set_all
       [(''.encoding'', ''UTF-8''),
        (''displayName'', dict_get_default cfg ''name'' []),
        (''numvcpus'', dict_get_default cfg ''cores'' ''1''),
        (''memsize'', dict_get_default cfg ''memory'' ''4096''),
        (''guestOS'', dict_get_default GUESTOS_MAP (dict_get_default cfg ''ostype'' []) ''other-64''),
        (''tools.syncTime'', ''TRUE''),
        (''virtualHW.version'', ''19''),
        (''config.version'', ''8'')] []"

text \<open>Lines 105 to 107.\<close>

definition firmware_cfg :: "string pydict \<Rightarrow> string pydict \<Rightarrow> string pydict" where
  "firmware_cfg cfg vmx =
     (if dict_get cfg ''bios'' = Some ''ovmf'' \<or> dict_contains ''efidisk0'' cfg
      then dict_set ''efi.present'' ''TRUE'' (dict_set ''firmware'' ''efi'' vmx)
      else vmx)"

text \<open>Lines 109 to 111.\<close>

definition uuid_cfg :: "string pydict \<Rightarrow> string pydict \<Rightarrow> error + string pydict" where
  "uuid_cfg cfg vmx =
     (if dict_contains ''smbios1'' cfg then
        bind (dict_item cfg ''smbios1'') (\<lambda>smbios1.
          if py_in ''uuid='' smbios1 then
            bind (py_index (py_split ''uuid='' smbios1) 1) (\<lambda>uuid.
              Inr (dict_set ''uuid.bios'' uuid vmx))
          else Inr vmx)
      else Inr vmx)"

text \<open>\<open>maxd\<close> is the interpreter's limit on the digits of \<open>int()\<close>, see \<open>py_int\<close>.\<close>

definition process_conf ::
  "nat \<Rightarrow> string pydict \<Rightarrow> bool \<Rightarrow> error + (string pydict \<times> task list)" where
  "process_conf maxd cfg preserve_mac =
     (let vm_name = dict_get_default cfg ''name'' [] in
      bind (uuid_cfg cfg (firmware_cfg cfg (scalar_cfg cfg))) (\<lambda>vmx.
      bind (process_items maxd preserve_mac vm_name cfg
              \<lparr>vmx_cfg = vmx, convert_tasks = [], disk_id = [(''sata0'', 0), (''scsi0'', 0)]\<rparr>)
           (\<lambda>s. Inr (vmx_cfg s, convert_tasks s))))"

section \<open>\<open>convert_disk_file\<close>\<close>

text \<open>
  The function talks to three things outside the program: \<open>pvesm path\<close>, the file system
  and the \<open>qemu-img\<close> child process. The model takes what they answer as a parameter.
  \<open>subprocess.run(..., check=True)\<close> raises CalledProcessError on a return code other than
  zero. Of the child process the loop sees the results of \<open>read(1)\<close> in the turns where
  \<open>poll()\<close> still returned None (one byte, or nothing at end of file), and afterwards its
  return code is available. Both programs are taken to be installed.
\<close>

record world =
  pvesm_path :: "string \<Rightarrow> int \<times> string"
  path_exists :: "string \<Rightarrow> bool"
  qemu_img :: "string \<Rightarrow> string \<Rightarrow> char option list \<times> int"

datatype event = Warning_not_found string | Converting string string | Progress string

text \<open>\<open>v.decode()\<close> of at most one byte: UTF-8 accepts a single byte below 128 only.\<close>

definition decode :: "char option \<Rightarrow> error + string" where
  "decode v =
     (case v of
        None \<Rightarrow> Inr []
      | Some b \<Rightarrow> if (of_char b :: nat) < 128 then Inr [b] else Inl UnicodeDecodeError)"

text \<open>Lines 57 to 63: one turn for each time \<open>poll()\<close> returned None.\<close>

fun progress_loop :: "char option list \<Rightarrow> string \<Rightarrow> event list \<Rightarrow> error + event list" where
  "progress_loop [] current_progress out = Inr out"
| "progress_loop (v # vs) current_progress out =
     (if v = Some (CHR 0x0D)
      then progress_loop vs [] (out @ [Progress (py_strip current_progress)])
      else bind (decode v) (\<lambda>t. progress_loop vs (current_progress @ t) out))"

definition basename :: "string \<Rightarrow> string" where
  "basename p = rev (takeWhile (\<lambda>c. c \<noteq> CHR ''/'') (rev p))"

text \<open>The result is what the function prints and what it returns (\<open>None\<close> is Python's).\<close>

definition convert_disk_file ::
  "world \<Rightarrow> string \<Rightarrow> string \<Rightarrow> error + (event list \<times> string option)" where
  "convert_disk_file w pve_path vmdk_path =
     (case pvesm_path w pve_path of (rc, out) \<Rightarrow>
        if rc \<noteq> 0 then Inl CalledProcessError
        else
          let disk_path = py_strip out in
          if \<not> path_exists w disk_path then Inr ([Warning_not_found disk_path], None)
          else
            (case qemu_img w disk_path vmdk_path of (reads, returncode) \<Rightarrow>
               bind (progress_loop reads [] [Converting pve_path (basename vmdk_path)])
                 (\<lambda>out. Inr (out, Some (basename vmdk_path)))))"

section \<open>Notions of the specification\<close>

text \<open>The destination controller family of a disk key (lines 120 to 122).\<close>

definition disk_family :: "string \<Rightarrow> string" where
  "disk_family key = (if re_match_name_digit [''scsi''] key then ''scsi0'' else ''sata0'')"

text \<open>An entry of the source mapping that the disk enumeration does not skip.\<close>

definition live_disk :: "string \<times> string \<Rightarrow> bool" where
  "live_disk kv =
     (re_match_name_digit [''sata'', ''scsi'', ''efidisk''] (fst kv) \<and>
      \<not> startswith (snd kv) ''none,media=cdrom'')"

text \<open>How many disks of a family were discovered among the entries \<open>pre\<close>.\<close>

definition discovered :: "(string \<times> string) list \<Rightarrow> string \<Rightarrow> nat" where
  "discovered pre dev = length (filter (\<lambda>kv. live_disk kv \<and> disk_family (fst kv) = dev) pre)"

text \<open>The file name of slot \<open>n\<close> of a family (the format of line 130).\<close>

definition slot_file :: "string \<Rightarrow> string \<Rightarrow> nat \<Rightarrow> string" where
  "slot_file vm_name dev n = vm_name @ ''-'' @ dev @ ''-disk-'' @ str_nat n @ ''.vmdk''"

text \<open>The backing reference of a disk entry: the text before the first comma.\<close>

definition backing_ref :: "string \<Rightarrow> string" where
  "backing_ref entry = takeWhile (\<lambda>c. c \<noteq> CHR '','') entry"

text \<open>The keys that the loop over the entries writes all begin with one of three names.\<close>

definition loop_key :: "string \<Rightarrow> bool" where
  "loop_key k = (prefix ''sata0'' k \<or> prefix ''scsi0'' k \<or> prefix ''ethernet'' k)"

text \<open>
  The parsing rule in the words of the specification: trim the line; skip it when it is
  empty or has no colon; cut it at the first colon; trim key and value; store the pair, a
  later one overwriting an earlier one with the same key.
\<close>

definition spec_kv :: "string \<Rightarrow> (string \<times> string) option" where
  "spec_kv raw =
     (let line = py_strip raw in
      if line = [] \<or> CHR '':'' \<notin> set line then None
      else Some (py_strip (takeWhile (\<lambda>c. c \<noteq> CHR '':'') line),
                 py_strip (tl (dropWhile (\<lambda>c. c \<noteq> CHR '':'') line))))"

definition spec_parse :: "string \<Rightarrow> (string \<rightharpoonup> string)" where
  "spec_parse text =
     foldl (\<lambda>m kv. m(fst kv \<mapsto> snd kv)) Map.empty (List.map_filter spec_kv (file_lines text))"

text \<open>
  The BIOS UUID in the words of the specification: the text after \<open>uuid=\<close> up to the next
  comma, the delimiter of the components of the value.
\<close>

definition spec_uuid :: "string \<Rightarrow> string option" where
  "spec_uuid v =
     (case find_sub ''uuid='' v of
        None \<Rightarrow> None
      | Some (a, b) \<Rightarrow> Some (takeWhile (\<lambda>c. c \<noteq> CHR '','') b))"

text \<open>
  Two states of the mapper that hold the same conversion tasks and the same slot counters,
  and the same value under every destination key outside \<open>ks\<close>.
\<close>

definition agree_off :: "string list \<Rightarrow> mapper_state \<Rightarrow> mapper_state \<Rightarrow> bool" where
  "agree_off ks s t =
     (convert_tasks s = convert_tasks t \<and> disk_id s = disk_id t \<and>
      (\<forall>k. k \<notin> set ks \<longrightarrow> map_of (vmx_cfg s) k = map_of (vmx_cfg t) k))"


section \<open>Strings and dictionaries\<close>

lemma find_sub_char:
  "find_sub [c] s =
     (if c \<in> set s then Some (takeWhile (\<lambda>x. x \<noteq> c) s, tl (dropWhile (\<lambda>x. x \<noteq> c) s)) else None)"
  by (induction s) auto

lemma py_in_char: "py_in [c] s \<longleftrightarrow> c \<in> set s"
  by (simp add: py_in_def find_sub_char)

lemma map_of_dict_set: "map_of (dict_set k v d) = (map_of d)(k \<mapsto> v)"
  by (induction d) (auto simp: fun_eq_iff)

lemma keys_dict_set: "set (map fst (dict_set k v d)) = insert k (set (map fst d))"
proof -
  have "dom (map_of (dict_set k v d)) = insert k (dom (map_of d))"
    by (simp add: map_of_dict_set)
  then show ?thesis
    by (simp add: dom_map_of_conv_image_fst)
qed

lemma distinct_dict_set: "distinct (map fst d) \<Longrightarrow> distinct (map fst (dict_set k v d))"
proof (induction d)
  case Nil
  then show ?case by simp
next
  case (Cons a d)
  obtain k' v' where a: "a = (k', v')" by (cases a)
  show ?case
  proof (cases "k' = k")
    case True
    with Cons.prems a show ?thesis by simp
  next
    case False
    have "k' \<notin> set (map fst (dict_set k v d))"
      using Cons.prems a False by (simp only: keys_dict_set) auto
    with Cons a False show ?thesis by simp
  qed
qed

lemma bind_Inr_iff: "bind m f = Inr y \<longleftrightarrow> (\<exists>x. m = Inr x \<and> f x = Inr y)"
  by (cases m) (simp_all add: bind_def)

lemma bind_simps [simp]: "bind (Inr x) f = f x" "bind (Inl e) f = Inl e"
  by (simp_all add: bind_def)

lemma find_sub_Some: "find_sub sep s = Some (a, b) \<Longrightarrow> s = a @ sep @ b"
proof (induction s arbitrary: a)
  case Nil
  then show ?case by (simp split: if_splits)
next
  case (Cons c cs)
  show ?case
  proof (cases "prefix sep (c # cs)")
    case True
    then obtain r where r: "c # cs = sep @ r" by (auto simp: prefix_def)
    from True Cons.prems have "a = []" "b = drop (length sep) (c # cs)" by simp_all
    with r show ?thesis by simp
  next
    case False
    with Cons.prems obtain a' where "find_sub sep cs = Some (a', b)" "a = c # a'"
      by auto
    with Cons.IH [of a'] show ?thesis by simp
  qed
qed

lemma py_split_first: "py_index (py_split [c] s) 0 = Inr (takeWhile (\<lambda>x. x \<noteq> c) s)"
proof (cases s)
  case Nil
  then show ?thesis by (simp add: py_split_def)
next
  case (Cons x xs)
  then have split: "py_split [c] s = py_split_max [c] (Suc (length xs)) s"
    by (simp add: py_split_def)
  show ?thesis
  proof (cases "c \<in> set s")
    case True
    then show ?thesis
      by (simp add: split find_sub_char del: find_sub.simps)
  next
    case False
    then have tw: "takeWhile (\<lambda>x. x \<noteq> c) s = s" by auto
    show ?thesis using False
      by (simp add: split find_sub_char tw del: find_sub.simps)
  qed
qed

lemma py_split_second:
  assumes "sep \<noteq> []" and "find_sub sep v = Some (a, b)"
  shows "py_index (py_split sep v) 1 =
           Inr (case find_sub sep b of None \<Rightarrow> b | Some (c, d) \<Rightarrow> c)"
proof -
  from assms have v: "v = a @ sep @ b" by (simp add: find_sub_Some)
  with assms(1) obtain n where n: "length v = Suc n" "length b \<le> n"
    by (cases sep) auto
  show ?thesis
  proof (cases n)
    case 0
    with n have "b = []" by simp
    with n 0 assms show ?thesis by (simp add: py_split_def)
  next
    case (Suc m)
    with n assms show ?thesis
      by (simp add: py_split_def split: option.splits)
  qed
qed



text \<open>\<open>sub in s\<close> holds exactly when \<open>sub\<close> occurs in \<open>s\<close>.\<close>

lemma py_in_iff: "py_in sub s \<longleftrightarrow> (\<exists>a b. s = a @ sub @ b)"
proof
  assume "py_in sub s"
  then obtain a b where "find_sub sub s = Some (a, b)"
    by (auto simp: py_in_def)
  then have "s = a @ sub @ b" by (rule find_sub_Some)
  then show "\<exists>a b. s = a @ sub @ b" by blast
next
  assume "\<exists>a b. s = a @ sub @ b"
  then obtain a b where s: "s = a @ sub @ b" by blast
  have "find_sub sub (a @ sub @ b) \<noteq> None"
  proof (induction a)
    case Nil
    have "prefix sub (sub @ b)" by simp
    then show ?case by (cases "sub @ b") simp_all
  next
    case (Cons x a)
    then show ?case by auto
  qed
  then show "py_in sub s" by (simp add: s py_in_def)
qed

text \<open>The bound on the number of splits in \<open>py_split\<close> is never reached: more would give
  the same list.\<close>

lemma py_split_max_enough:
  assumes "sep \<noteq> []" and "length s \<le> n" and "length s \<le> m"
  shows "py_split_max sep n s = py_split_max sep m s"
  using assms(2,3)
proof (induction n arbitrary: m s)
  case 0
  then have "s = []" by simp
  with assms(1) show ?case by (cases m) simp_all
next
  case (Suc n)
  show ?case
  proof (cases m)
    case 0
    with Suc.prems have "s = []" by simp
    with assms(1) 0 show ?thesis by simp
  next
    case m: (Suc m')
    show ?thesis
    proof (cases "find_sub sep s")
      case None
      then show ?thesis by (simp add: m)
    next
      case (Some ab)
      obtain a b where ab: "ab = (a, b)" by (cases ab)
      from Some ab have "s = a @ sep @ b" by (simp add: find_sub_Some)
      with assms(1) have "length b < length s" by (cases sep) simp_all
      with Suc.prems m have "length b \<le> n" "length b \<le> m'" by simp_all
      then have "py_split_max sep n b = py_split_max sep m' b" by (rule Suc.IH)
      with Some ab show ?thesis by (simp add: m)
    qed
  qed
qed

section \<open>The parser\<close>

lemma parse_line_spec:
  "parse_line cfg raw =
     Inr (case spec_kv raw of None \<Rightarrow> cfg | Some kv \<Rightarrow> dict_set (fst kv) (snd kv) cfg)"
  by (simp add: parse_line_def spec_kv_def Let_def py_in_char find_sub_char bind_def)

lemma parse_lines_spec:
  "\<exists>cfg'. parse_lines cfg ls = Inr cfg' \<and>
     (distinct (map fst cfg) \<longrightarrow> distinct (map fst cfg')) \<and>
     map_of cfg' = foldl (\<lambda>m kv. m(fst kv \<mapsto> snd kv)) (map_of cfg) (List.map_filter spec_kv ls)"
proof (induction ls arbitrary: cfg)
  case Nil
  show ?case by simp
next
  case (Cons l ls)
  show ?case
  proof (cases "spec_kv l")
    case None
    with Cons [of cfg] show ?thesis
      by (simp add: parse_line_spec bind_def)
  next
    case (Some kv)
    with Cons [of "dict_set (fst kv) (snd kv) cfg"] show ?thesis
      by (auto simp: parse_line_spec bind_def map_of_dict_set distinct_dict_set)
  qed
qed

text \<open>
  C8. For every input text \<open>parse_conf\<close> returns a dictionary (no line raises), its keys
  are distinct, and it holds exactly what the rule of the specification stores: each line
  trimmed, empty lines and lines without a colon skipped, the others cut at the first
  colon, key and value trimmed, a later pair overwriting an earlier one with the same key.
\<close>

theorem parse_conf_refines_spec:
  "\<exists>cfg. parse_conf text = Inr cfg \<and> distinct (map fst cfg) \<and> map_of cfg = spec_parse text"
  using parse_lines_spec [of "[]" "file_lines text"]
  by (simp add: parse_conf_def spec_parse_def)

section \<open>The loop over the entries\<close>

lemma disk_family_cases: "disk_family key = ''sata0'' \<or> disk_family key = ''scsi0''"
  by (simp add: disk_family_def)

lemma disk_step_eq:
  "disk_step vm key entry s =
     (case dict_item (disk_id s) (disk_family key) of
        Inl e \<Rightarrow> Inl e
      | Inr n \<Rightarrow>
          Inr \<lparr>vmx_cfg =
                 dict_set (disk_family key @ '':'' @ str_nat n @ ''.fileName'')
                   (slot_file vm (disk_family key) n)
                   (dict_set (disk_family key @ '':'' @ str_nat n @ ''.present'') ''TRUE''
                      (dict_set (disk_family key @ ''.present'') ''TRUE''
                         (if disk_family key = ''scsi0''
                          then dict_set ''scsi0.virtualDev'' ''lsilogic'' (vmx_cfg s)
                          else vmx_cfg s))),
               convert_tasks =
                 (if convertible entry
                  then convert_tasks s @
                         [\<lparr>disk_file = backing_ref entry, vmdk_name = slot_file vm (disk_family key) n\<rparr>]
                  else convert_tasks s),
               disk_id = dict_set (disk_family key) (n + 1) (disk_id s)\<rparr>)"
  by (simp add: disk_step_def disk_family_def Let_def py_split_first slot_file_def
      backing_ref_def bind_def split: sum.splits)

lemma not_loop_key:
  assumes "\<not> loop_key k"
  shows "k \<noteq> disk_family key @ x" and "k \<noteq> ''scsi0.virtualDev''" and "k \<noteq> ''ethernet'' @ y"
  using assms disk_family_cases [of key] by (auto simp: loop_key_def)

lemma disk_step_other_key:
  assumes "disk_step vm_name key entry s = Inr s'" and "\<not> loop_key k"
  shows "map_of (vmx_cfg s') k = map_of (vmx_cfg s) k"
proof -
  from assms(1) obtain n where
    "vmx_cfg s' =
       dict_set (disk_family key @ '':'' @ str_nat n @ ''.fileName'')
         (slot_file vm_name (disk_family key) n)
         (dict_set (disk_family key @ '':'' @ str_nat n @ ''.present'') ''TRUE''
            (dict_set (disk_family key @ ''.present'') ''TRUE''
               (if disk_family key = ''scsi0''
                then dict_set ''scsi0.virtualDev'' ''lsilogic'' (vmx_cfg s)
                else vmx_cfg s)))"
    by (auto simp: disk_step_eq split: sum.splits)
  then show ?thesis
    using not_loop_key [OF assms(2)] by (simp add: map_of_dict_set)
qed


lemma net_step_Inr:
  assumes "net_step maxd pm key entry s = Inr s'"
  obtains nic_id where "py_int maxd (filter py_isdigit key) = Inr nic_id"
    and "vmx_cfg s' =
      (if pm
       then dict_set (''ethernet'' @ str_nat nic_id @ ''.addressType'') ''static''
              (dict_set (''ethernet'' @ str_nat nic_id @ ''.address'')
                 (case re_search_kv [''virtio'', ''e1000'', ''e1000e'', ''vmxnet3'', ''rtl8139''] entry of
                    Some g \<Rightarrow> g | None \<Rightarrow> [])
                 (dict_set (''ethernet'' @ str_nat nic_id @ ''.networkName'')
                    (case re_search_kv [''bridge''] entry of Some g \<Rightarrow> g | None \<Rightarrow> ''unknown'')
                    (dict_set (''ethernet'' @ str_nat nic_id @ ''.present'') ''TRUE''
                       (dict_set (''ethernet'' @ str_nat nic_id @ ''.addressType'') ''vpx'' (vmx_cfg s)))))
       else dict_set (''ethernet'' @ str_nat nic_id @ ''.networkName'')
              (case re_search_kv [''bridge''] entry of Some g \<Rightarrow> g | None \<Rightarrow> ''unknown'')
              (dict_set (''ethernet'' @ str_nat nic_id @ ''.present'') ''TRUE''
                 (dict_set (''ethernet'' @ str_nat nic_id @ ''.addressType'') ''vpx'' (vmx_cfg s))))"
    and "convert_tasks s' = convert_tasks s" and "disk_id s' = disk_id s"
  using assms by (auto simp: net_step_def Let_def bind_Inr_iff)

lemma net_step_other_key:
  assumes "net_step maxd pm key entry s = Inr s'" and "\<not> loop_key k"
  shows "map_of (vmx_cfg s') k = map_of (vmx_cfg s) k"
proof -
  from assms(1) obtain nic_id where
    "vmx_cfg s' =
      (if pm
       then dict_set (''ethernet'' @ str_nat nic_id @ ''.addressType'') ''static''
              (dict_set (''ethernet'' @ str_nat nic_id @ ''.address'')
                 (case re_search_kv [''virtio'', ''e1000'', ''e1000e'', ''vmxnet3'', ''rtl8139''] entry of
                    Some g \<Rightarrow> g | None \<Rightarrow> [])
                 (dict_set (''ethernet'' @ str_nat nic_id @ ''.networkName'')
                    (case re_search_kv [''bridge''] entry of Some g \<Rightarrow> g | None \<Rightarrow> ''unknown'')
                    (dict_set (''ethernet'' @ str_nat nic_id @ ''.present'') ''TRUE''
                       (dict_set (''ethernet'' @ str_nat nic_id @ ''.addressType'') ''vpx'' (vmx_cfg s)))))
       else dict_set (''ethernet'' @ str_nat nic_id @ ''.networkName'')
              (case re_search_kv [''bridge''] entry of Some g \<Rightarrow> g | None \<Rightarrow> ''unknown'')
              (dict_set (''ethernet'' @ str_nat nic_id @ ''.present'') ''TRUE''
                 (dict_set (''ethernet'' @ str_nat nic_id @ ''.addressType'') ''vpx'' (vmx_cfg s))))"
    by (rule net_step_Inr)
  then show ?thesis
    using not_loop_key(3) [OF assms(2)] by (simp add: map_of_dict_set)
qed

lemma net_key_not_disk_key:
  assumes "re_match_name_digit [''net''] key"
  shows "\<not> re_match_name_digit [''sata'', ''scsi'', ''efidisk''] key"
  using assms by (cases key) (auto simp: re_match_name_digit_def)

lemma process_entry_eq:
  "process_entry maxd pm vm s (key, entry) =
     (if re_match_name_digit [''sata'', ''scsi'', ''efidisk''] key
      then (if startswith entry ''none,media=cdrom'' then Inr s else disk_step vm key entry s)
      else if re_match_name_digit [''net''] key then net_step maxd pm key entry s
      else Inr s)"
proof (cases "re_match_name_digit [''net''] key")
  case True
  then show ?thesis
    using net_key_not_disk_key [OF True] by (simp add: process_entry_def)
next
  case False
  then show ?thesis
    by (cases "disk_step vm key entry s") (simp_all add: process_entry_def)
qed

lemma process_entry_other_key:
  assumes "process_entry maxd pm vm s kv = Inr s'" and "\<not> loop_key k"
  shows "map_of (vmx_cfg s') k = map_of (vmx_cfg s) k"
proof -
  obtain key entry where kv: "kv = (key, entry)" by (cases kv)
  show ?thesis
    using assms unfolding kv process_entry_eq
    by (auto split: if_splits dest: disk_step_other_key net_step_other_key)
qed

lemma process_items_invariant:
  assumes "process_items maxd pm vm items s = Inr s'" and "P s"
    and "\<And>t kv t'. P t \<Longrightarrow> kv \<in> set items \<Longrightarrow> process_entry maxd pm vm t kv = Inr t' \<Longrightarrow> P t'"
  shows "P s'"
  using assms
proof (induction items arbitrary: s)
  case Nil
  then show ?case by simp
next
  case (Cons kv items)
  from Cons.prems(1) obtain s1 where s1: "process_entry maxd pm vm s kv = Inr s1"
    "process_items maxd pm vm items s1 = Inr s'"
    by (auto simp: bind_Inr_iff)
  have "P s1" by (rule Cons.prems(3) [OF Cons.prems(2) _ s1(1)]) simp
  then show ?case
    using Cons.prems(3) by (intro Cons.IH [OF s1(2)]) auto
qed

lemma process_items_other_key:
  assumes "process_items maxd pm vm items s = Inr s'" and "\<not> loop_key k"
  shows "map_of (vmx_cfg s') k = map_of (vmx_cfg s) k"
  using assms(1)
  by (rule process_items_invariant [where P = "\<lambda>t. map_of (vmx_cfg t) k = map_of (vmx_cfg s) k"])
     (simp_all add: process_entry_other_key [OF _ assms(2)])

lemma process_items_append:
  "process_items maxd pm vm (xs @ ys) s =
     bind (process_items maxd pm vm xs s) (process_items maxd pm vm ys)"
  by (induction xs arbitrary: s) (simp_all add: bind_def split: sum.splits)

section \<open>The scalar attributes\<close>

lemma uuid_cfg_other_key:
  assumes "uuid_cfg cfg vmx = Inr vmx'" and "k \<noteq> ''uuid.bios''"
  shows "map_of vmx' k = map_of vmx k"
  using assms
  by (auto simp: uuid_cfg_def bind_Inr_iff map_of_dict_set split: if_splits)

lemma uuid_cfg_uuid_key:
  assumes "uuid_cfg cfg vmx = Inr vmx'"
  shows "map_of vmx' ''uuid.bios'' =
     (case map_of cfg ''smbios1'' of
        None \<Rightarrow> map_of vmx ''uuid.bios''
      | Some v \<Rightarrow>
          (case find_sub ''uuid='' v of
             None \<Rightarrow> map_of vmx ''uuid.bios''
           | Some (a, b) \<Rightarrow> Some (case find_sub ''uuid='' b of None \<Rightarrow> b | Some (c, d) \<Rightarrow> c)))"
proof (cases "map_of cfg ''smbios1''")
  case None
  with assms show ?thesis
    by (simp add: uuid_cfg_def dict_contains_def)
next
  case (Some v)
  show ?thesis
  proof (cases "find_sub ''uuid='' v")
    case None
    with Some assms show ?thesis
      by (simp add: uuid_cfg_def dict_contains_def dict_item_def py_in_def)
  next
    case found: (Some ab)
    obtain a b where ab: "ab = (a, b)" by (cases ab)
    have "py_index (py_split ''uuid='' v) 1 =
            Inr (case find_sub ''uuid='' b of None \<Rightarrow> b | Some (c, d) \<Rightarrow> c)"
      using found ab by (intro py_split_second) simp_all
    with Some found ab assms show ?thesis
      by (auto simp: uuid_cfg_def dict_contains_def dict_item_def py_in_def map_of_dict_set)
  qed
qed

lemma loop_key_literals:
  "\<not> loop_key ''firmware''" "\<not> loop_key ''efi.present''" "\<not> loop_key ''uuid.bios''"
  "\<not> loop_key ''displayName''"
  by (simp_all add: loop_key_def)

lemma map_of_scalar_cfg:
  "map_of (scalar_cfg cfg) ''firmware'' = None"
  "map_of (scalar_cfg cfg) ''efi.present'' = None"
  "map_of (scalar_cfg cfg) ''uuid.bios'' = None"
  "map_of (scalar_cfg cfg) ''displayName'' = Some (dict_get_default cfg ''name'' [])"
  by (simp_all add: scalar_cfg_def dict_set_all_def map_of_dict_set)

lemma process_conf_Inr:
  assumes "process_conf maxd cfg pm = Inr (vmx, tasks)"
  obtains vmx0 s where "uuid_cfg cfg (firmware_cfg cfg (scalar_cfg cfg)) = Inr vmx0"
    and "process_items maxd pm (dict_get_default cfg ''name'' [])  cfg
           \<lparr>vmx_cfg = vmx0, convert_tasks = [], disk_id = [(''sata0'', 0), (''scsi0'', 0)]\<rparr> = Inr s"
    and "vmx = vmx_cfg s" and "tasks = convert_tasks s"
  using assms by (auto simp: process_conf_def Let_def bind_Inr_iff)

text \<open>
  C5. Whenever the mapper returns, the key \<open>firmware\<close> (with the value \<open>efi\<close>) and the key
  \<open>efi.present\<close> (with the value \<open>TRUE\<close>) are in the destination mapping if the source has
  \<open>bios\<close> equal to \<open>ovmf\<close> or has a key \<open>efidisk0\<close>, and both keys are absent otherwise.
\<close>

theorem efi_flags_iff:
  assumes "process_conf maxd cfg pm = Inr (vmx, tasks)"
  shows "dict_get vmx ''firmware'' =
           (if dict_get cfg ''bios'' = Some ''ovmf'' \<or> dict_contains ''efidisk0'' cfg
            then Some ''efi'' else None) \<and>
         dict_get vmx ''efi.present'' =
           (if dict_get cfg ''bios'' = Some ''ovmf'' \<or> dict_contains ''efidisk0'' cfg
            then Some ''TRUE'' else None)"
proof -
  from assms obtain vmx0 s where
    u: "uuid_cfg cfg (firmware_cfg cfg (scalar_cfg cfg)) = Inr vmx0" and
    l: "process_items maxd pm (dict_get_default cfg ''name'' [])  cfg
           \<lparr>vmx_cfg = vmx0, convert_tasks = [], disk_id = [(''sata0'', 0), (''scsi0'', 0)]\<rparr> = Inr s" and
    v: "vmx = vmx_cfg s"
    by (rule process_conf_Inr)
  have "map_of vmx ''firmware'' = map_of (firmware_cfg cfg (scalar_cfg cfg)) ''firmware''"
    using process_items_other_key [OF l loop_key_literals(1)] uuid_cfg_other_key [OF u, of "''firmware''"]
    by (simp add: v)
  moreover have "map_of vmx ''efi.present'' = map_of (firmware_cfg cfg (scalar_cfg cfg)) ''efi.present''"
    using process_items_other_key [OF l loop_key_literals(2)] uuid_cfg_other_key [OF u, of "''efi.present''"]
    by (simp add: v)
  ultimately show ?thesis
    by (simp add: dict_get_def firmware_cfg_def map_of_dict_set map_of_scalar_cfg)
qed

theorem efi_flags_iff_witness:
  "process_conf 4300 [(''bios'', ''ovmf''), (''cores'', ''2'')] False =
     Inr ([(''.encoding'', ''UTF-8''), (''displayName'', []), (''numvcpus'', ''2''),
           (''memsize'', ''4096''), (''guestOS'', ''other-64''), (''tools.syncTime'', ''TRUE''),
           (''virtualHW.version'', ''19''), (''config.version'', ''8''),
           (''firmware'', ''efi''), (''efi.present'', ''TRUE'')], []) \<and>
   dict_get [(''.encoding'', ''UTF-8''), (''displayName'', []), (''numvcpus'', ''2''),
           (''memsize'', ''4096''), (''guestOS'', ''other-64''), (''tools.syncTime'', ''TRUE''),
           (''virtualHW.version'', ''19''), (''config.version'', ''8''),
           (''firmware'', ''efi''), (''efi.present'', ''TRUE'')] ''firmware'' = Some ''efi''"
proof -
  have h: "process_conf 4300 [(''bios'', ''ovmf''), (''cores'', ''2'')] False =
     Inr ([(''.encoding'', ''UTF-8''), (''displayName'', []), (''numvcpus'', ''2''),
           (''memsize'', ''4096''), (''guestOS'', ''other-64''), (''tools.syncTime'', ''TRUE''),
           (''virtualHW.version'', ''19''), (''config.version'', ''8''),
           (''firmware'', ''efi''), (''efi.present'', ''TRUE'')], [])"
    by code_simp
  show ?thesis
    using h efi_flags_iff [OF h] by (simp add: dict_get_def dict_contains_def)
qed

text \<open>
  What line 110 stores: the text after the first \<open>uuid=\<close> up to the next occurrence of
  \<open>uuid=\<close> or, when there is none, up to the end of the value. The key is absent when the
  source has no \<open>smbios1\<close> or its value has no \<open>uuid=\<close>.
\<close>

lemma uuid_bios_stored:
  assumes "process_conf maxd cfg pm = Inr (vmx, tasks)"
  shows "dict_get vmx ''uuid.bios'' =
     (case dict_get cfg ''smbios1'' of
        None \<Rightarrow> None
      | Some v \<Rightarrow>
          (case find_sub ''uuid='' v of
             None \<Rightarrow> None
           | Some (a, b) \<Rightarrow> Some (case find_sub ''uuid='' b of None \<Rightarrow> b | Some (c, d) \<Rightarrow> c)))"
proof -
  from assms obtain vmx0 s where
    u: "uuid_cfg cfg (firmware_cfg cfg (scalar_cfg cfg)) = Inr vmx0" and
    l: "process_items maxd pm (dict_get_default cfg ''name'' [])  cfg
           \<lparr>vmx_cfg = vmx0, convert_tasks = [], disk_id = [(''sata0'', 0), (''scsi0'', 0)]\<rparr> = Inr s" and
    v: "vmx = vmx_cfg s"
    by (rule process_conf_Inr)
  have "map_of (firmware_cfg cfg (scalar_cfg cfg)) ''uuid.bios'' = None"
    by (simp add: firmware_cfg_def map_of_dict_set map_of_scalar_cfg)
  moreover have "map_of vmx ''uuid.bios'' = map_of vmx0 ''uuid.bios''"
    using process_items_other_key [OF l loop_key_literals(3)] by (simp add: v)
  ultimately show ?thesis
    using uuid_cfg_uuid_key [OF u] by (simp add: dict_get_def split: option.splits)
qed

text \<open>
  C2. The claim asks for the text after \<open>uuid=\<close> up to the next delimiter, without the
  components that follow a comma. Line 110 does not cut at the comma, as the reads of the
  disk reference and of the MAC address in the same function do: for the value
  \<open>uuid=1234,serial=5\<close> the specification's rule gives \<open>1234\<close> and the mapper stores
  \<open>1234,serial=5\<close> under \<open>uuid.bios\<close>.
\<close>

theorem uuid_bios_keeps_components:
  "process_conf 4300 [(''smbios1'', ''uuid=1234,serial=5'')] False =
     Inr ([(''.encoding'', ''UTF-8''), (''displayName'', []), (''numvcpus'', ''1''),
           (''memsize'', ''4096''), (''guestOS'', ''other-64''), (''tools.syncTime'', ''TRUE''),
           (''virtualHW.version'', ''19''), (''config.version'', ''8''),
           (''uuid.bios'', ''1234,serial=5'')], []) \<and>
   spec_uuid ''uuid=1234,serial=5'' = Some ''1234''"
  by code_simp

section \<open>The disk converter\<close>

lemma convert_disk_file_any_exit_status:
  "convert_disk_file (w\<lparr>qemu_img := \<lambda>src dst. (fst (qemu_img w src dst), rc)\<rparr>) pve_path vmdk_path =
   convert_disk_file w pve_path vmdk_path"
  by (simp add: convert_disk_file_def Let_def split: prod.splits)

text \<open>
  C3. The claim asks for a failure when the child exits with a status other than zero.
  The function never reads the return code: below, \<open>pvesm\<close> resolves the reference, the path
  exists, and \<open>qemu-img\<close> prints one progress line and exits with status 1; the function
  returns the destination file name as it does after a successful conversion.
\<close>

theorem convert_disk_file_failed_child:
  "convert_disk_file
     \<lparr>pvesm_path = (\<lambda>ref. (0, ''/dev/pve/vm-100-disk-0'' @ [CHR 0x0A])),
      path_exists = (\<lambda>p. True),
      qemu_img = (\<lambda>src dst. ([Some CHR ''x'', Some (CHR 0x0D)], 1))\<rparr>
     ''local-lvm:vm-100-disk-0'' ''out/vm-sata0-disk-0.vmdk'' =
   Inr ([Converting ''local-lvm:vm-100-disk-0'' ''vm-sata0-disk-0.vmdk'', Progress ''x''],
        Some ''vm-sata0-disk-0.vmdk'')"
  by (simp add: convert_disk_file_def Let_def py_strip_def py_whitespace_def basename_def decode_def)

section \<open>Disk entries\<close>

lemma skipped_entry_loop:
  assumes "re_match_name_digit [''sata'', ''scsi'', ''efidisk''] key"
    and "startswith entry ''none,media=cdrom''"
  shows "process_entry maxd pm vm s (key, entry) = Inr s \<and>
         process_items maxd pm vm (pre @ (key, entry) # post) s0 =
         process_items maxd pm vm (pre @ post) s0"
proof -
  have skip: "process_entry maxd pm vm t (key, entry) = Inr t" for t
    using assms by (simp add: process_entry_eq)
  have "process_items maxd pm vm ((key, entry) # post) = process_items maxd pm vm post"
    by (rule ext) (simp add: skip)
  then have "process_items maxd pm vm (pre @ (key, entry) # post) s0 =
             process_items maxd pm vm (pre @ post) s0"
    by (simp only: process_items_append)
  with skip show ?thesis by simp
qed

lemma live_disk_step:
  assumes "live_disk (key, entry)"
  shows "process_entry maxd pm vm s (key, entry) = disk_step vm key entry s"
  using assms by (simp add: live_disk_def process_entry_eq)

lemma disk_step_Inr:
  assumes "disk_step vm key entry s = Inr s'"
  obtains n where "dict_item (disk_id s) (disk_family key) = Inr n"
    and "vmx_cfg s' =
       dict_set (disk_family key @ '':'' @ str_nat n @ ''.fileName'')
         (slot_file vm (disk_family key) n)
         (dict_set (disk_family key @ '':'' @ str_nat n @ ''.present'') ''TRUE''
            (dict_set (disk_family key @ ''.present'') ''TRUE''
               (if disk_family key = ''scsi0''
                then dict_set ''scsi0.virtualDev'' ''lsilogic'' (vmx_cfg s)
                else vmx_cfg s)))"
    and "convert_tasks s' =
       (if convertible entry
        then convert_tasks s @
               [\<lparr>disk_file = backing_ref entry, vmdk_name = slot_file vm (disk_family key) n\<rparr>]
        else convert_tasks s)"
    and "disk_id s' = dict_set (disk_family key) (n + 1) (disk_id s)"
  using assms by (auto simp: disk_step_eq split: sum.splits)

text \<open>
  C1, as amended. For every disk entry that the enumeration does not skip, with \<open>n\<close> the
  slot counter of its family: a conversion task is appended if and only if the value of the
  entry, the whole of it, contains \<open>.qcow2\<close>, \<open>.vmdk\<close> or \<open>.raw\<close>; the task's source is the
  text before the first comma and its destination is the file name of slot \<open>n\<close>, which is
  also stored under the slot's \<open>fileName\<close> key.
\<close>

theorem disk_entry_task:
  assumes "live_disk (key, entry)"
    and "process_entry maxd pm vm s (key, entry) = Inr s'"
  shows "\<exists>n. dict_item (disk_id s) (disk_family key) = Inr n \<and>
           convert_tasks s' =
             (if convertible entry
              then convert_tasks s @
                     [\<lparr>disk_file = backing_ref entry, vmdk_name = slot_file vm (disk_family key) n\<rparr>]
              else convert_tasks s) \<and>
           dict_get (vmx_cfg s') (disk_family key @ '':'' @ str_nat n @ ''.fileName'') =
             Some (slot_file vm (disk_family key) n)"
proof -
  from assms have "disk_step vm key entry s = Inr s'"
    by (simp add: live_disk_step)
  then obtain n where n: "dict_item (disk_id s) (disk_family key) = Inr n"
    and vmx: "vmx_cfg s' =
       dict_set (disk_family key @ '':'' @ str_nat n @ ''.fileName'')
         (slot_file vm (disk_family key) n)
         (dict_set (disk_family key @ '':'' @ str_nat n @ ''.present'') ''TRUE''
            (dict_set (disk_family key @ ''.present'') ''TRUE''
               (if disk_family key = ''scsi0''
                then dict_set ''scsi0.virtualDev'' ''lsilogic'' (vmx_cfg s)
                else vmx_cfg s)))"
    and tasks: "convert_tasks s' =
       (if convertible entry
        then convert_tasks s @
               [\<lparr>disk_file = backing_ref entry, vmdk_name = slot_file vm (disk_family key) n\<rparr>]
        else convert_tasks s)"
    by (rule disk_step_Inr)
  have "dict_get (vmx_cfg s') (disk_family key @ '':'' @ str_nat n @ ''.fileName'') =
             Some (slot_file vm (disk_family key) n)"
    by (simp add: vmx dict_get_def map_of_dict_set)
  with n tasks show ?thesis by blast
qed

theorem disk_entry_task_witness:
  "live_disk (''sata1'', ''local:100/vm-100-disk-1.qcow2,size=32G'') \<and>
   process_entry 4300 True ''test1''
     \<lparr>vmx_cfg = [], convert_tasks = [], disk_id = [(''sata0'', 1), (''scsi0'', 0)]\<rparr>
     (''sata1'', ''local:100/vm-100-disk-1.qcow2,size=32G'') =
   Inr \<lparr>vmx_cfg = [(''sata0.present'', ''TRUE''), (''sata0:1.present'', ''TRUE''),
                   (''sata0:1.fileName'', ''test1-sata0-disk-1.vmdk'')],
        convert_tasks = [\<lparr>disk_file = ''local:100/vm-100-disk-1.qcow2'',
                           vmdk_name = ''test1-sata0-disk-1.vmdk''\<rparr>],
        disk_id = [(''sata0'', 2), (''scsi0'', 0)]\<rparr> \<and>
   convertible ''local:100/vm-100-disk-1.qcow2,size=32G''"
proof -
  have h1: "live_disk (''sata1'', ''local:100/vm-100-disk-1.qcow2,size=32G'')"
    by code_simp
  have h2: "process_entry 4300 True ''test1''
     \<lparr>vmx_cfg = [], convert_tasks = [], disk_id = [(''sata0'', 1), (''scsi0'', 0)]\<rparr>
     (''sata1'', ''local:100/vm-100-disk-1.qcow2,size=32G'') =
   Inr \<lparr>vmx_cfg = [(''sata0.present'', ''TRUE''), (''sata0:1.present'', ''TRUE''),
                   (''sata0:1.fileName'', ''test1-sata0-disk-1.vmdk'')],
        convert_tasks = [\<lparr>disk_file = ''local:100/vm-100-disk-1.qcow2'',
                           vmdk_name = ''test1-sata0-disk-1.vmdk''\<rparr>],
        disk_id = [(''sata0'', 2), (''scsi0'', 0)]\<rparr>"
    by code_simp
  have h3: "convertible ''local:100/vm-100-disk-1.qcow2,size=32G''"
    by code_simp
  show ?thesis
    using h1 h2 h3 disk_entry_task [OF h1 h2] by simp
qed

text \<open>
  The claim as stated fails: the backing reference below has no convertible extension,
  the option after the comma contains \<open>.raw\<close>, and a task is appended.
\<close>

theorem disk_entry_task_counterexample:
  "process_conf 4300 [(''scsi0'', ''local-lvm:vm-100-disk-0,serial=a.raw'')] False =
     Inr ([(''.encoding'', ''UTF-8''), (''displayName'', []), (''numvcpus'', ''1''),
           (''memsize'', ''4096''), (''guestOS'', ''other-64''), (''tools.syncTime'', ''TRUE''),
           (''virtualHW.version'', ''19''), (''config.version'', ''8''),
           (''scsi0.virtualDev'', ''lsilogic''), (''scsi0.present'', ''TRUE''),
           (''scsi0:0.present'', ''TRUE''), (''scsi0:0.fileName'', ''-scsi0-disk-0.vmdk'')],
          [\<lparr>disk_file = ''local-lvm:vm-100-disk-0'', vmdk_name = ''-scsi0-disk-0.vmdk''\<rparr>]) \<and>
   backing_ref ''local-lvm:vm-100-disk-0,serial=a.raw'' = ''local-lvm:vm-100-disk-0'' \<and>
   \<not> convertible ''local-lvm:vm-100-disk-0''"
  by code_simp


lemma map_of_without_entry:
  "k \<noteq> key \<Longrightarrow> map_of (pre @ (key, entry) # post) k = map_of (pre @ post) k"
  by (simp add: map_add_def split: option.splits)

lemma disk_key_not_scalar:
  assumes "re_match_name_digit [''sata'', ''scsi'', ''efidisk''] key"
  shows "key \<noteq> ''name''" "key \<noteq> ''cores''" "key \<noteq> ''memory''" "key \<noteq> ''ostype''"
    "key \<noteq> ''bios''" "key \<noteq> ''smbios1''"
  using assms by (auto simp: re_match_name_digit_def)

section \<open>Network entries\<close>

lemma suffix_literal: "suffix xs ys \<longleftrightarrow> prefix (rev xs) (rev ys)"
  by (simp add: suffix_to_prefix)

lemma net_key_step:
  assumes "re_match_name_digit [''net''] key"
  shows "process_entry maxd pm vm s (key, entry) = net_step maxd pm key entry s"
  using assms net_key_not_disk_key [OF assms] by (simp add: process_entry_eq)

text \<open>
  C6. For every network entry that the loop processes, with \<open>nic_id\<close> the number read from
  the digits of its key: without \<open>preserve_mac\<close> the address type stored is \<open>vpx\<close> and no key
  ending in \<open>.address\<close> is written; with \<open>preserve_mac\<close> the address type stored is \<open>static\<close>
  and the key \<open>ethernet<nic_id>.address\<close> is stored, with the MAC address that the pattern of
  the NIC models extracts, or with the empty text when the pattern does not match.
\<close>

theorem net_entry_address:
  assumes "re_match_name_digit [''net''] key"
    and "process_entry maxd pm vm s (key, entry) = Inr s'"
  shows "\<exists>nic_id. py_int maxd (filter py_isdigit key) = Inr nic_id \<and>
     dict_get (vmx_cfg s') (''ethernet'' @ str_nat nic_id @ ''.addressType'') =
       Some (if pm then ''static'' else ''vpx'') \<and>
     (if pm
      then dict_get (vmx_cfg s') (''ethernet'' @ str_nat nic_id @ ''.address'') =
             Some (case re_search_kv [''virtio'', ''e1000'', ''e1000e'', ''vmxnet3'', ''rtl8139''] entry of
                     Some mac \<Rightarrow> mac | None \<Rightarrow> [])
      else (\<forall>k. suffix ''.address'' k \<longrightarrow> dict_get (vmx_cfg s') k = dict_get (vmx_cfg s) k))"
proof -
  from assms have "net_step maxd pm key entry s = Inr s'"
    by (simp add: net_key_step)
  then obtain nic_id where nic: "py_int maxd (filter py_isdigit key) = Inr nic_id"
    and vmx: "vmx_cfg s' =
      (if pm
       then dict_set (''ethernet'' @ str_nat nic_id @ ''.addressType'') ''static''
              (dict_set (''ethernet'' @ str_nat nic_id @ ''.address'')
                 (case re_search_kv [''virtio'', ''e1000'', ''e1000e'', ''vmxnet3'', ''rtl8139''] entry of
                    Some g \<Rightarrow> g | None \<Rightarrow> [])
                 (dict_set (''ethernet'' @ str_nat nic_id @ ''.networkName'')
                    (case re_search_kv [''bridge''] entry of Some g \<Rightarrow> g | None \<Rightarrow> ''unknown'')
                    (dict_set (''ethernet'' @ str_nat nic_id @ ''.present'') ''TRUE''
                       (dict_set (''ethernet'' @ str_nat nic_id @ ''.addressType'') ''vpx'' (vmx_cfg s)))))
       else dict_set (''ethernet'' @ str_nat nic_id @ ''.networkName'')
              (case re_search_kv [''bridge''] entry of Some g \<Rightarrow> g | None \<Rightarrow> ''unknown'')
              (dict_set (''ethernet'' @ str_nat nic_id @ ''.present'') ''TRUE''
                 (dict_set (''ethernet'' @ str_nat nic_id @ ''.addressType'') ''vpx'' (vmx_cfg s))))"
    by (rule net_step_Inr)
  have other: "k \<noteq> x @ ''.addressType''" "k \<noteq> x @ ''.present''" "k \<noteq> x @ ''.networkName''"
    if "suffix ''.address'' k" for k x
    using that by (auto simp: suffix_literal)
  show ?thesis
  proof (cases pm)
    case True
    with nic vmx show ?thesis
      by (simp add: dict_get_def map_of_dict_set)
  next
    case False
    have "dict_get (vmx_cfg s') k = dict_get (vmx_cfg s) k" if "suffix ''.address'' k" for k
      using other [OF that, of "''ethernet'' @ str_nat nic_id"] False
      by (simp add: vmx dict_get_def map_of_dict_set)
    moreover have "dict_get (vmx_cfg s') (''ethernet'' @ str_nat nic_id @ ''.addressType'') = Some ''vpx''"
      using False by (simp add: vmx dict_get_def map_of_dict_set)
    ultimately show ?thesis
      using nic False by simp
  qed
qed


theorem net_entry_address_witness:
  "re_match_name_digit [''net''] ''net0'' \<and>
   process_entry 4300 True ''vm''
     \<lparr>vmx_cfg = [], convert_tasks = [], disk_id = [(''sata0'', 0), (''scsi0'', 0)]\<rparr>
     (''net0'', ''bridge=vmbr0,firewall=1'') =
   Inr \<lparr>vmx_cfg = [(''ethernet0.addressType'', ''static''), (''ethernet0.present'', ''TRUE''),
                   (''ethernet0.networkName'', ''vmbr0''), (''ethernet0.address'', [])],
        convert_tasks = [], disk_id = [(''sata0'', 0), (''scsi0'', 0)]\<rparr> \<and>
   py_int 4300 (filter py_isdigit ''net0'') = Inr 0 \<and>
   re_search_kv [''virtio'', ''e1000'', ''e1000e'', ''vmxnet3'', ''rtl8139''] ''bridge=vmbr0,firewall=1'' = None"
proof -
  have h1: "re_match_name_digit [''net''] ''net0''"
    by code_simp
  have h2: "process_entry 4300 True ''vm''
     \<lparr>vmx_cfg = [], convert_tasks = [], disk_id = [(''sata0'', 0), (''scsi0'', 0)]\<rparr>
     (''net0'', ''bridge=vmbr0,firewall=1'') =
   Inr \<lparr>vmx_cfg = [(''ethernet0.addressType'', ''static''), (''ethernet0.present'', ''TRUE''),
                   (''ethernet0.networkName'', ''vmbr0''), (''ethernet0.address'', [])],
        convert_tasks = [], disk_id = [(''sata0'', 0), (''scsi0'', 0)]\<rparr>"
    by code_simp
  have h3: "py_int 4300 (filter py_isdigit ''net0'') = Inr 0"
    by code_simp
  have h4: "re_search_kv [''virtio'', ''e1000'', ''e1000e'', ''vmxnet3'', ''rtl8139''] ''bridge=vmbr0,firewall=1'' = None"
    by code_simp
  show ?thesis
    using h1 h2 h3 h4 net_entry_address [OF h1 h2] by simp
qed

section \<open>Slot counters\<close>

lemma discovered_Cons:
  "discovered (kv # pre) dev =
     (if live_disk kv \<and> disk_family (fst kv) = dev then 1 else 0) + discovered pre dev"
  by (simp add: discovered_def)

lemma discovered_snoc:
  "discovered (pre @ [kv]) dev =
     discovered pre dev + (if live_disk kv \<and> disk_family (fst kv) = dev then 1 else 0)"
  by (simp add: discovered_def)

lemma discovered_Nil: "discovered [] dev = 0"
  by (simp add: discovered_def)

lemma discovered_single:
  "discovered [kv] dev = (if live_disk kv \<and> disk_family (fst kv) = dev then 1 else 0)"
  by (simp add: discovered_def)

lemma process_entry_disk_id:
  assumes "process_entry maxd pm vm s kv = Inr s'"
    and "disk_id s = [(''sata0'', a), (''scsi0'', b)]"
  shows "disk_id s' =
     [(''sata0'', a + discovered [kv] ''sata0''), (''scsi0'', b + discovered [kv] ''scsi0'')]"
proof -
  obtain key entry where kv: "kv = (key, entry)" by (cases kv)
  show ?thesis
  proof (cases "live_disk (key, entry)")
    case True
    with assms(1) have "disk_step vm key entry s = Inr s'"
      by (simp add: kv live_disk_step)
    then obtain n where n: "dict_item (disk_id s) (disk_family key) = Inr n"
      and s': "disk_id s' = dict_set (disk_family key) (n + 1) (disk_id s)"
      by (rule disk_step_Inr)
    from disk_family_cases [of key] show ?thesis
    proof
      assume sata: "disk_family key = ''sata0''"
      with n assms(2) have "n = a" by (simp add: dict_item_def)
      with sata True show ?thesis
        by (simp add: s' assms(2) kv discovered_single)
    next
      assume scsi: "disk_family key = ''scsi0''"
      with n assms(2) have "n = b" by (simp add: dict_item_def)
      with scsi True show ?thesis
        by (simp add: s' assms(2) kv discovered_single)
    qed
  next
    case False
    have "disk_id s' = disk_id s"
    proof (cases "re_match_name_digit [''sata'', ''scsi'', ''efidisk''] key")
      case True
      with False assms(1) show ?thesis
        by (simp add: kv live_disk_def process_entry_eq)
    next
      case not_disk: False
      show ?thesis
      proof (cases "re_match_name_digit [''net''] key")
        case True
        with not_disk assms(1) have "net_step maxd pm key entry s = Inr s'"
          by (simp add: kv process_entry_eq)
        then show ?thesis by (rule net_step_Inr)
      next
        case False
        with not_disk assms(1) show ?thesis
          by (simp add: kv process_entry_eq)
      qed
    qed
    with False assms(2) show ?thesis
      by (simp add: kv discovered_single)
  qed
qed

lemma process_items_disk_id:
  assumes "process_items maxd pm vm pre s = Inr s'"
    and "disk_id s = [(''sata0'', a), (''scsi0'', b)]"
  shows "disk_id s' =
     [(''sata0'', a + discovered pre ''sata0''), (''scsi0'', b + discovered pre ''scsi0'')]"
  using assms
proof (induction pre arbitrary: s a b)
  case Nil
  then show ?case by (simp add: discovered_def)
next
  case (Cons kv pre)
  from Cons.prems(1) obtain s1 where s1: "process_entry maxd pm vm s kv = Inr s1"
    "process_items maxd pm vm pre s1 = Inr s'"
    by (auto simp: bind_Inr_iff)
  have "disk_id s1 =
     [(''sata0'', a + discovered [kv] ''sata0''), (''scsi0'', b + discovered [kv] ''scsi0'')]"
    using s1(1) Cons.prems(2) by (rule process_entry_disk_id)
  from Cons.IH [OF s1(2) this] show ?case
    by (simp add: discovered_Cons discovered_Nil)
qed

text \<open>
  C4. Let the loop start with both counters at zero and have processed the entries \<open>pre\<close>.
  Then each counter equals the number of disks of its family discovered in \<open>pre\<close>, whatever
  the numeric suffixes of the keys; processing one more entry never lowers a counter; and
  when that entry is a disk that is not skipped, it is stored under the slot whose index is
  the number of disks of its family discovered before it, and its family's counter goes up
  by one.
\<close>

theorem slot_indices_dense:
  assumes "disk_id s0 = [(''sata0'', 0), (''scsi0'', 0)]"
    and "process_items maxd pm vm pre s0 = Inr s"
    and "process_entry maxd pm vm s (key, entry) = Inr s'"
  shows "disk_id s = [(''sata0'', discovered pre ''sata0''), (''scsi0'', discovered pre ''scsi0'')] \<and>
         disk_id s' = [(''sata0'', discovered (pre @ [(key, entry)]) ''sata0''),
                       (''scsi0'', discovered (pre @ [(key, entry)]) ''scsi0'')] \<and>
         (\<forall>dev. discovered pre dev \<le> discovered (pre @ [(key, entry)]) dev) \<and>
         (live_disk (key, entry) \<longrightarrow>
            dict_get (vmx_cfg s')
              (disk_family key @ '':'' @ str_nat (discovered pre (disk_family key)) @ ''.present'') =
              Some ''TRUE'' \<and>
            dict_get (vmx_cfg s')
              (disk_family key @ '':'' @ str_nat (discovered pre (disk_family key)) @ ''.fileName'') =
              Some (slot_file vm (disk_family key) (discovered pre (disk_family key))) \<and>
            discovered (pre @ [(key, entry)]) (disk_family key) =
              discovered pre (disk_family key) + 1)"
proof -
  have before: "disk_id s = [(''sata0'', discovered pre ''sata0''), (''scsi0'', discovered pre ''scsi0'')]"
    using process_items_disk_id [OF assms(2,1)] by simp
  have after: "disk_id s' = [(''sata0'', discovered (pre @ [(key, entry)]) ''sata0''),
                       (''scsi0'', discovered (pre @ [(key, entry)]) ''scsi0'')]"
    using process_entry_disk_id [OF assms(3) before]
    by (simp add: discovered_snoc discovered_Cons discovered_Nil)
  have mono: "\<forall>dev. discovered pre dev \<le> discovered (pre @ [(key, entry)]) dev"
    by (simp add: discovered_snoc)
  have slot: "dict_get (vmx_cfg s')
              (disk_family key @ '':'' @ str_nat (discovered pre (disk_family key)) @ ''.present'') =
              Some ''TRUE'' \<and>
            dict_get (vmx_cfg s')
              (disk_family key @ '':'' @ str_nat (discovered pre (disk_family key)) @ ''.fileName'') =
              Some (slot_file vm (disk_family key) (discovered pre (disk_family key))) \<and>
            discovered (pre @ [(key, entry)]) (disk_family key) =
              discovered pre (disk_family key) + 1"
    if live: "live_disk (key, entry)"
  proof -
    from live assms(3) have "disk_step vm key entry s = Inr s'"
      by (simp add: live_disk_step)
    then obtain n where n: "dict_item (disk_id s) (disk_family key) = Inr n"
      and vmx: "vmx_cfg s' =
       dict_set (disk_family key @ '':'' @ str_nat n @ ''.fileName'')
         (slot_file vm (disk_family key) n)
         (dict_set (disk_family key @ '':'' @ str_nat n @ ''.present'') ''TRUE''
            (dict_set (disk_family key @ ''.present'') ''TRUE''
               (if disk_family key = ''scsi0''
                then dict_set ''scsi0.virtualDev'' ''lsilogic'' (vmx_cfg s)
                else vmx_cfg s)))"
      by (rule disk_step_Inr)
    have "n = discovered pre (disk_family key)"
      using n before disk_family_cases [of key] by (auto simp: dict_item_def)
    with live show ?thesis
      by (simp add: vmx dict_get_def map_of_dict_set discovered_snoc)
  qed
  from before after mono slot show ?thesis by blast
qed


text \<open>The example of the specification: the keys \<open>scsi0\<close> and \<open>scsi3\<close> get the slots 0 and 1.\<close>

theorem slot_indices_dense_witness:
  "disk_id \<lparr>vmx_cfg = [], convert_tasks = [], disk_id = [(''sata0'', 0), (''scsi0'', 0)]\<rparr> =
     [(''sata0'', 0), (''scsi0'', 0)] \<and>
   process_items 4300 False ''vm'' [(''scsi0'', ''s:d0.raw'')]
     \<lparr>vmx_cfg = [], convert_tasks = [], disk_id = [(''sata0'', 0), (''scsi0'', 0)]\<rparr> =
     Inr \<lparr>vmx_cfg = [(''scsi0.virtualDev'', ''lsilogic''), (''scsi0.present'', ''TRUE''),
                     (''scsi0:0.present'', ''TRUE''), (''scsi0:0.fileName'', ''vm-scsi0-disk-0.vmdk'')],
          convert_tasks = [\<lparr>disk_file = ''s:d0.raw'', vmdk_name = ''vm-scsi0-disk-0.vmdk''\<rparr>],
          disk_id = [(''sata0'', 0), (''scsi0'', 1)]\<rparr> \<and>
   process_entry 4300 False ''vm''
     \<lparr>vmx_cfg = [(''scsi0.virtualDev'', ''lsilogic''), (''scsi0.present'', ''TRUE''),
                 (''scsi0:0.present'', ''TRUE''), (''scsi0:0.fileName'', ''vm-scsi0-disk-0.vmdk'')],
      convert_tasks = [\<lparr>disk_file = ''s:d0.raw'', vmdk_name = ''vm-scsi0-disk-0.vmdk''\<rparr>],
      disk_id = [(''sata0'', 0), (''scsi0'', 1)]\<rparr>
     (''scsi3'', ''s:d3.raw'') =
     Inr \<lparr>vmx_cfg = [(''scsi0.virtualDev'', ''lsilogic''), (''scsi0.present'', ''TRUE''),
                     (''scsi0:0.present'', ''TRUE''), (''scsi0:0.fileName'', ''vm-scsi0-disk-0.vmdk''),
                     (''scsi0:1.present'', ''TRUE''), (''scsi0:1.fileName'', ''vm-scsi0-disk-1.vmdk'')],
          convert_tasks = [\<lparr>disk_file = ''s:d0.raw'', vmdk_name = ''vm-scsi0-disk-0.vmdk''\<rparr>,
                           \<lparr>disk_file = ''s:d3.raw'', vmdk_name = ''vm-scsi0-disk-1.vmdk''\<rparr>],
          disk_id = [(''sata0'', 0), (''scsi0'', 2)]\<rparr> \<and>
   live_disk (''scsi3'', ''s:d3.raw'') \<and>
   disk_family ''scsi3'' = ''scsi0'' \<and>
   discovered [(''scsi0'', ''s:d0.raw'')] ''scsi0'' = 1"
proof -
  have h1: "disk_id \<lparr>vmx_cfg = [], convert_tasks = [], disk_id = [(''sata0'', 0), (''scsi0'', 0)]\<rparr> =
     [(''sata0'', 0), (''scsi0'', 0)]"
    by simp
  have h2: "process_items 4300 False ''vm'' [(''scsi0'', ''s:d0.raw'')]
     \<lparr>vmx_cfg = [], convert_tasks = [], disk_id = [(''sata0'', 0), (''scsi0'', 0)]\<rparr> =
     Inr \<lparr>vmx_cfg = [(''scsi0.virtualDev'', ''lsilogic''), (''scsi0.present'', ''TRUE''),
                     (''scsi0:0.present'', ''TRUE''), (''scsi0:0.fileName'', ''vm-scsi0-disk-0.vmdk'')],
          convert_tasks = [\<lparr>disk_file = ''s:d0.raw'', vmdk_name = ''vm-scsi0-disk-0.vmdk''\<rparr>],
          disk_id = [(''sata0'', 0), (''scsi0'', 1)]\<rparr>"
    by code_simp
  have h3: "process_entry 4300 False ''vm''
     \<lparr>vmx_cfg = [(''scsi0.virtualDev'', ''lsilogic''), (''scsi0.present'', ''TRUE''),
                 (''scsi0:0.present'', ''TRUE''), (''scsi0:0.fileName'', ''vm-scsi0-disk-0.vmdk'')],
      convert_tasks = [\<lparr>disk_file = ''s:d0.raw'', vmdk_name = ''vm-scsi0-disk-0.vmdk''\<rparr>],
      disk_id = [(''sata0'', 0), (''scsi0'', 1)]\<rparr>
     (''scsi3'', ''s:d3.raw'') =
     Inr \<lparr>vmx_cfg = [(''scsi0.virtualDev'', ''lsilogic''), (''scsi0.present'', ''TRUE''),
                     (''scsi0:0.present'', ''TRUE''), (''scsi0:0.fileName'', ''vm-scsi0-disk-0.vmdk''),
                     (''scsi0:1.present'', ''TRUE''), (''scsi0:1.fileName'', ''vm-scsi0-disk-1.vmdk'')],
          convert_tasks = [\<lparr>disk_file = ''s:d0.raw'', vmdk_name = ''vm-scsi0-disk-0.vmdk''\<rparr>,
                           \<lparr>disk_file = ''s:d3.raw'', vmdk_name = ''vm-scsi0-disk-1.vmdk''\<rparr>],
          disk_id = [(''sata0'', 0), (''scsi0'', 2)]\<rparr>"
    by code_simp
  have h4: "live_disk (''scsi3'', ''s:d3.raw'')" "disk_family ''scsi3'' = ''scsi0''"
    "discovered [(''scsi0'', ''s:d0.raw'')] ''scsi0'' = 1"
    by code_simp+
  show ?thesis
    using h1 h2 h3 h4 slot_indices_dense [OF h1 h2 h3] by simp
qed

section \<open>File names of slots\<close>





lemma process_entry_tasks:
  assumes "process_entry maxd pm vm s kv = Inr s'"
    and "disk_id s = [(''sata0'', a), (''scsi0'', b)]"
  shows "convert_tasks s' = convert_tasks s \<or>
     live_disk kv \<and>
     (\<exists>file. convert_tasks s' =
        convert_tasks s @
          [\<lparr>disk_file = file,
            vmdk_name = slot_file vm (disk_family (fst kv))
                          (if disk_family (fst kv) = ''sata0'' then a else b)\<rparr>])"
proof -
  obtain key entry where kv: "kv = (key, entry)" by (cases kv)
  show ?thesis
  proof (cases "live_disk (key, entry)")
    case True
    with assms(1) have "disk_step vm key entry s = Inr s'"
      by (simp add: kv live_disk_step)
    then obtain n where n: "dict_item (disk_id s) (disk_family key) = Inr n"
      and tasks: "convert_tasks s' =
       (if convertible entry
        then convert_tasks s @
               [\<lparr>disk_file = backing_ref entry, vmdk_name = slot_file vm (disk_family key) n\<rparr>]
        else convert_tasks s)"
      by (rule disk_step_Inr)
    have "n = (if disk_family key = ''sata0'' then a else b)"
      using n assms(2) disk_family_cases [of key] by (auto simp: dict_item_def)
    with tasks True show ?thesis
      by (auto simp: kv)
  next
    case False
    have "convert_tasks s' = convert_tasks s"
    proof (cases "re_match_name_digit [''sata'', ''scsi'', ''efidisk''] key")
      case True
      with False assms(1) show ?thesis
        by (simp add: kv live_disk_def process_entry_eq)
    next
      case not_disk: False
      show ?thesis
      proof (cases "re_match_name_digit [''net''] key")
        case True
        with not_disk assms(1) have "net_step maxd pm key entry s = Inr s'"
          by (simp add: kv process_entry_eq)
        then show ?thesis by (rule net_step_Inr)
      next
        case False
        with not_disk assms(1) show ?thesis
          by (simp add: kv process_entry_eq)
      qed
    qed
    then show ?thesis by simp
  qed
qed


lemma process_items_tasks:
  assumes "process_items maxd pm vm items s = Inr s'"
    and "disk_id s = [(''sata0'', a), (''scsi0'', b)]"
    and "t \<in> set (convert_tasks s')"
  shows "t \<in> set (convert_tasks s) \<or>
     (\<exists>m. a \<le> m \<and> m < a + discovered items ''sata0'' \<and> vmdk_name t = slot_file vm ''sata0'' m) \<or>
     (\<exists>m. b \<le> m \<and> m < b + discovered items ''scsi0'' \<and> vmdk_name t = slot_file vm ''scsi0'' m)"
  using assms
proof (induction items arbitrary: s a b)
  case Nil
  then show ?case by simp
next
  case (Cons kv items)
  from Cons.prems(1) obtain s1 where s1: "process_entry maxd pm vm s kv = Inr s1"
    "process_items maxd pm vm items s1 = Inr s'"
    by (auto simp: bind_Inr_iff)
  define a1 where "a1 = a + discovered [kv] ''sata0''"
  define b1 where "b1 = b + discovered [kv] ''scsi0''"
  have ids: "disk_id s1 = [(''sata0'', a1), (''scsi0'', b1)]"
    unfolding a1_def b1_def using s1(1) Cons.prems(2) by (rule process_entry_disk_id)
  have sums: "a1 + discovered items ''sata0'' = a + discovered (kv # items) ''sata0''"
    "b1 + discovered items ''scsi0'' = b + discovered (kv # items) ''scsi0''"
    by (simp_all add: a1_def b1_def discovered_Cons discovered_Nil)
  from Cons.IH [OF s1(2) ids Cons.prems(3)]
  consider (old) "t \<in> set (convert_tasks s1)"
    | (sata) m where "a1 \<le> m" "m < a1 + discovered items ''sata0''" "vmdk_name t = slot_file vm ''sata0'' m"
    | (scsi) m where "b1 \<le> m" "m < b1 + discovered items ''scsi0''" "vmdk_name t = slot_file vm ''scsi0'' m"
    by blast
  then show ?case
  proof cases
    case old
    from process_entry_tasks [OF s1(1) Cons.prems(2)] show ?thesis
    proof
      assume "convert_tasks s1 = convert_tasks s"
      with old show ?thesis by simp
    next
      assume new: "live_disk kv \<and>
        (\<exists>file. convert_tasks s1 =
           convert_tasks s @
             [\<lparr>disk_file = file,
               vmdk_name = slot_file vm (disk_family (fst kv))
                             (if disk_family (fst kv) = ''sata0'' then a else b)\<rparr>])"
      then obtain ref where tasks: "convert_tasks s1 =
           convert_tasks s @
             [\<lparr>disk_file = ref,
               vmdk_name = slot_file vm (disk_family (fst kv))
                             (if disk_family (fst kv) = ''sata0'' then a else b)\<rparr>]"
        by blast
      show ?thesis
      proof (cases "t \<in> set (convert_tasks s)")
        case True
        then show ?thesis by simp
      next
        case False
        with old tasks have name: "vmdk_name t =
          slot_file vm (disk_family (fst kv)) (if disk_family (fst kv) = ''sata0'' then a else b)"
          by auto
        from disk_family_cases [of "fst kv"] show ?thesis
        proof
          assume fam: "disk_family (fst kv) = ''sata0''"
          with new have "a < a + discovered (kv # items) ''sata0''"
            by (simp add: discovered_Cons)
          with name fam show ?thesis by auto
        next
          assume fam: "disk_family (fst kv) = ''scsi0''"
          with new have "b < b + discovered (kv # items) ''scsi0''"
            by (simp add: discovered_Cons)
          with name fam show ?thesis by auto
        qed
      qed
    qed
  next
    case sata
    then have "a \<le> m" "m < a + discovered (kv # items) ''sata0''"
      using sums(1) by (simp_all add: a1_def)
    with sata(3) show ?thesis by blast
  next
    case scsi
    then have "b \<le> m" "m < b + discovered (kv # items) ''scsi0''"
      using sums(2) by (simp_all add: b1_def)
    with scsi(3) show ?thesis by blast
  qed
qed








section \<open>Disks without a conversion\<close>







section \<open>A source mapping without a name\<close>

lemma uuid_cfg_total: "\<exists>vmx'. uuid_cfg cfg vmx = Inr vmx'"
proof (cases "map_of cfg ''smbios1''")
  case None
  then show ?thesis by (simp add: uuid_cfg_def dict_contains_def)
next
  case (Some v)
  show ?thesis
  proof (cases "find_sub ''uuid='' v")
    case None
    with Some show ?thesis
      by (simp add: uuid_cfg_def dict_contains_def dict_item_def py_in_def)
  next
    case found: (Some ab)
    obtain a b where ab: "ab = (a, b)" by (cases ab)
    have "py_index (py_split ''uuid='' v) 1 =
            Inr (case find_sub ''uuid='' b of None \<Rightarrow> b | Some (c, d) \<Rightarrow> c)"
      using found ab by (intro py_split_second) simp_all
    with Some found show ?thesis
      by (simp add: uuid_cfg_def dict_contains_def dict_item_def py_in_def)
  qed
qed

lemma process_entry_total:
  assumes "disk_id s = [(''sata0'', a), (''scsi0'', b)]"
    and "re_match_name_digit [''net''] (fst kv) \<longrightarrow>
           (\<exists>n. py_int maxd (filter py_isdigit (fst kv)) = Inr n)"
  shows "\<exists>s'. process_entry maxd pm vm s kv = Inr s'"
proof -
  obtain key entry where kv: "kv = (key, entry)" by (cases kv)
  have disk: "\<exists>s'. disk_step vm key entry s = Inr s'"
    using assms(1) disk_family_cases [of key]
    by (auto simp: disk_step_eq dict_item_def)
  have net: "\<exists>s'. net_step maxd pm key entry s = Inr s'" if "re_match_name_digit [''net''] key"
    using that assms(2) by (auto simp: kv net_step_def Let_def)
  show ?thesis
    using disk net by (simp add: kv process_entry_eq)
qed

lemma process_items_total:
  assumes "disk_id s = [(''sata0'', a), (''scsi0'', b)]"
    and "\<forall>kv \<in> set items. re_match_name_digit [''net''] (fst kv) \<longrightarrow>
           (\<exists>n. py_int maxd (filter py_isdigit (fst kv)) = Inr n)"
  shows "\<exists>s'. process_items maxd pm vm items s = Inr s'"
  using assms
proof (induction items arbitrary: s a b)
  case Nil
  show ?case by simp
next
  case (Cons kv items)
  from Cons.prems obtain s1 where s1: "process_entry maxd pm vm s kv = Inr s1"
    using process_entry_total [of s a b kv maxd pm vm] by auto
  have "disk_id s1 =
     [(''sata0'', a + discovered [kv] ''sata0''), (''scsi0'', b + discovered [kv] ''scsi0'')]"
    using s1 Cons.prems(1) by (rule process_entry_disk_id)
  from Cons.IH [OF this] Cons.prems(2) obtain s' where "process_items maxd pm vm items s1 = Inr s'"
    by auto
  with s1 show ?case by simp
qed

lemma fileName_key_other:
  assumes "suffix ''.fileName'' k"
  shows "k \<noteq> x @ ''.present''" "k \<noteq> ''scsi0.virtualDev''" "k \<noteq> x @ ''.addressType''"
    "k \<noteq> x @ ''.address''" "k \<noteq> x @ ''.networkName''" "k \<noteq> ''uuid.bios''"
    "k \<noteq> ''firmware''" "k \<noteq> ''efi.present''"
    "k \<notin> set [''.encoding'', ''displayName'', ''numvcpus'', ''memsize'', ''guestOS'',
                 ''tools.syncTime'', ''virtualHW.version'', ''config.version'']"
  using assms by (auto simp: suffix_literal)


lemma process_entry_fileName_values:
  assumes "process_entry maxd pm vm t kv = Inr t'"
    and "\<forall>k v. suffix ''.fileName'' k \<longrightarrow> map_of (vmx_cfg t) k = Some v \<longrightarrow>
           (\<exists>dev n. (dev = ''sata0'' \<or> dev = ''scsi0'') \<and> v = slot_file vm dev n)"
  shows "\<forall>k v. suffix ''.fileName'' k \<longrightarrow> map_of (vmx_cfg t') k = Some v \<longrightarrow>
           (\<exists>dev n. (dev = ''sata0'' \<or> dev = ''scsi0'') \<and> v = slot_file vm dev n)"
proof (intro allI impI)
  fix k v
  assume k: "suffix ''.fileName'' k" and v: "map_of (vmx_cfg t') k = Some v"
  note other = fileName_key_other [OF k]
  obtain key entry where kv: "kv = (key, entry)" by (cases kv)
  from assms(1) have "t' = t \<or> disk_step vm key entry t = Inr t' \<or>
      net_step maxd pm key entry t = Inr t'"
    unfolding kv process_entry_eq by (simp split: if_splits)
  then consider (same) "t' = t" | (disk) "disk_step vm key entry t = Inr t'"
    | (net) "net_step maxd pm key entry t = Inr t'"
    by blast
  then show "\<exists>dev n. (dev = ''sata0'' \<or> dev = ''scsi0'') \<and> v = slot_file vm dev n"
  proof cases
    case same
    with assms(2) k v show ?thesis by blast
  next
    case disk
    then obtain m where vmx: "vmx_cfg t' =
       dict_set (disk_family key @ '':'' @ str_nat m @ ''.fileName'')
         (slot_file vm (disk_family key) m)
         (dict_set (disk_family key @ '':'' @ str_nat m @ ''.present'') ''TRUE''
            (dict_set (disk_family key @ ''.present'') ''TRUE''
               (if disk_family key = ''scsi0''
                then dict_set ''scsi0.virtualDev'' ''lsilogic'' (vmx_cfg t)
                else vmx_cfg t)))"
      by (rule disk_step_Inr)
    show ?thesis
    proof (cases "k = disk_family key @ '':'' @ str_nat m @ ''.fileName''")
      case True
      with v have "v = slot_file vm (disk_family key) m"
        by (simp add: vmx map_of_dict_set)
      with disk_family_cases [of key] show ?thesis by blast
    next
      case False
      with v other(1) [of "disk_family key @ '':'' @ str_nat m"] other(1) [of "disk_family key"]
        other(2)
      have "map_of (vmx_cfg t) k = Some v"
        by (simp add: vmx map_of_dict_set split: if_splits)
      with assms(2) k show ?thesis by blast
    qed
  next
    case net
    then obtain nic_id where vmx: "vmx_cfg t' =
      (if pm
       then dict_set (''ethernet'' @ str_nat nic_id @ ''.addressType'') ''static''
              (dict_set (''ethernet'' @ str_nat nic_id @ ''.address'')
                 (case re_search_kv [''virtio'', ''e1000'', ''e1000e'', ''vmxnet3'', ''rtl8139''] entry of
                    Some g \<Rightarrow> g | None \<Rightarrow> [])
                 (dict_set (''ethernet'' @ str_nat nic_id @ ''.networkName'')
                    (case re_search_kv [''bridge''] entry of Some g \<Rightarrow> g | None \<Rightarrow> ''unknown'')
                    (dict_set (''ethernet'' @ str_nat nic_id @ ''.present'') ''TRUE''
                       (dict_set (''ethernet'' @ str_nat nic_id @ ''.addressType'') ''vpx'' (vmx_cfg t)))))
       else dict_set (''ethernet'' @ str_nat nic_id @ ''.networkName'')
              (case re_search_kv [''bridge''] entry of Some g \<Rightarrow> g | None \<Rightarrow> ''unknown'')
              (dict_set (''ethernet'' @ str_nat nic_id @ ''.present'') ''TRUE''
                 (dict_set (''ethernet'' @ str_nat nic_id @ ''.addressType'') ''vpx'' (vmx_cfg t))))"
      by (rule net_step_Inr)
    from v other(1,3,4,5) [of "''ethernet'' @ str_nat nic_id"]
    have "map_of (vmx_cfg t) k = Some v"
      by (simp add: vmx map_of_dict_set split: if_splits)
    with assms(2) k show ?thesis by blast
  qed
qed

lemma scalar_cfg_fileName:
  assumes "suffix ''.fileName'' k"
  shows "map_of (firmware_cfg cfg (scalar_cfg cfg)) k = None"
  using fileName_key_other(7,8,9) [OF assms]
  by (simp add: firmware_cfg_def scalar_cfg_def dict_set_all_def map_of_dict_set)


text \<open>
  The missing name itself is handled: line 94 never raises. When \<open>int()\<close> accepts the digit
  characters of every key that matches the network pattern, the mapper returns on a
  mapping without \<open>name\<close>; \<open>displayName\<close> is the empty text, and the file name of every
  conversion task and every value under a key ending in \<open>.fileName\<close> is \<open>-\<close>, the family,
  \<open>-disk-\<close>, a slot index and \<open>.vmdk\<close>.
\<close>

lemma missing_name_handled:
  assumes "\<not> dict_contains ''name'' cfg"
    and "\<forall>kv \<in> set cfg. re_match_name_digit [''net''] (fst kv) \<longrightarrow>
           (\<exists>n. py_int maxd (filter py_isdigit (fst kv)) = Inr n)"
  shows "\<exists>vmx tasks. process_conf maxd cfg pm = Inr (vmx, tasks) \<and>
     dict_get vmx ''displayName'' = Some [] \<and>
     (\<forall>t \<in> set tasks. \<exists>dev n. (dev = ''sata0'' \<or> dev = ''scsi0'') \<and>
        vmdk_name t = ''-'' @ dev @ ''-disk-'' @ str_nat n @ ''.vmdk'') \<and>
     (\<forall>k v. suffix ''.fileName'' k \<longrightarrow> dict_get vmx k = Some v \<longrightarrow>
        (\<exists>dev n. (dev = ''sata0'' \<or> dev = ''scsi0'') \<and>
           v = ''-'' @ dev @ ''-disk-'' @ str_nat n @ ''.vmdk''))"
proof -
  have vm: "dict_get_default cfg ''name'' [] = []"
    using assms(1) by (simp add: dict_get_default_def dict_contains_def)
  obtain vmx0 where vmx0: "uuid_cfg cfg (firmware_cfg cfg (scalar_cfg cfg)) = Inr vmx0"
    using uuid_cfg_total by blast
  define s0 where
    "s0 = \<lparr>vmx_cfg = vmx0, convert_tasks = [], disk_id = [(''sata0'', 0), (''scsi0'', 0)]\<rparr>"
  have ids: "disk_id s0 = [(''sata0'', 0), (''scsi0'', 0)]"
    by (simp add: s0_def)
  from process_items_total [OF ids assms(2)]
  obtain s where loop: "process_items maxd pm [] cfg s0 = Inr s"
    by blast
  have run: "process_conf maxd cfg pm = Inr (vmx_cfg s, convert_tasks s)"
    using vmx0 loop by (simp add: process_conf_def vm s0_def)
  have "map_of (vmx_cfg s) ''displayName'' = map_of vmx0 ''displayName''"
    using process_items_other_key [OF loop loop_key_literals(4)] by (simp add: s0_def)
  also have "\<dots> = map_of (firmware_cfg cfg (scalar_cfg cfg)) ''displayName''"
    using vmx0 by (rule uuid_cfg_other_key) simp
  also have "\<dots> = Some []"
    by (simp add: firmware_cfg_def map_of_dict_set map_of_scalar_cfg vm)
  finally have name: "dict_get (vmx_cfg s) ''displayName'' = Some []"
    by (simp add: dict_get_def)
  have tasks: "\<exists>dev n. (dev = ''sata0'' \<or> dev = ''scsi0'') \<and>
        vmdk_name t = ''-'' @ dev @ ''-disk-'' @ str_nat n @ ''.vmdk''"
    if t: "t \<in> set (convert_tasks s)" for t
  proof -
    have "t \<notin> set (convert_tasks s0)"
      by (simp add: s0_def)
    with process_items_tasks [OF loop ids t]
    have "\<exists>dev n. (dev = ''sata0'' \<or> dev = ''scsi0'') \<and> vmdk_name t = slot_file [] dev n"
      by blast
    then show ?thesis
      by (simp add: slot_file_def)
  qed
  have start: "\<forall>k v. suffix ''.fileName'' k \<longrightarrow> map_of (vmx_cfg s0) k = Some v \<longrightarrow>
           (\<exists>dev n. (dev = ''sata0'' \<or> dev = ''scsi0'') \<and> v = slot_file [] dev n)"
  proof (intro allI impI)
    fix k v
    assume k: "suffix ''.fileName'' k" and v: "map_of (vmx_cfg s0) k = Some v"
    have "map_of vmx0 k = map_of (firmware_cfg cfg (scalar_cfg cfg)) k"
      using vmx0 fileName_key_other(6) [OF k] by (rule uuid_cfg_other_key)
    with v scalar_cfg_fileName [OF k, of cfg] have False
      by (simp add: s0_def)
    then show "\<exists>dev n. (dev = ''sata0'' \<or> dev = ''scsi0'') \<and> v = slot_file [] dev n" ..
  qed
  have "\<forall>k v. suffix ''.fileName'' k \<longrightarrow> map_of (vmx_cfg s) k = Some v \<longrightarrow>
           (\<exists>dev n. (dev = ''sata0'' \<or> dev = ''scsi0'') \<and> v = slot_file [] dev n)"
    using loop start
    by (rule process_items_invariant) (rule process_entry_fileName_values)
  then have files: "\<forall>k v. suffix ''.fileName'' k \<longrightarrow> dict_get (vmx_cfg s) k = Some v \<longrightarrow>
        (\<exists>dev n. (dev = ''sata0'' \<or> dev = ''scsi0'') \<and>
           v = ''-'' @ dev @ ''-disk-'' @ str_nat n @ ''.vmdk'')"
    by (simp add: dict_get_def slot_file_def)
  from run name tasks files show ?thesis by blast
qed

text \<open>
  C9. The claim says that the mapper does not fail on a mapping without \<open>name\<close>. Line 140
  passes every \<open>isdigit\<close> character of a network key to \<open>int()\<close>, and \<open>isdigit\<close> accepts
  characters that \<open>int()\<close> refuses: below, the key is \<open>net1\<close> followed by the superscript two
  (U+00B2), the mapping has no \<open>name\<close>, and the mapper raises ValueError.
\<close>

theorem missing_name_int_raises:
  "\<not> dict_contains ''name'' [(''net1'' @ [CHR 0xB2], ''virtio=AA:BB:CC:DD:EE:FF,bridge=vmbr0'')] \<and>
   re_match_name_digit [''net''] (''net1'' @ [CHR 0xB2]) \<and>
   filter py_isdigit (''net1'' @ [CHR 0xB2]) = ''1'' @ [CHR 0xB2] \<and>
   process_conf 4300 [(''net1'' @ [CHR 0xB2], ''virtio=AA:BB:CC:DD:EE:FF,bridge=vmbr0'')] True =
     Inl ValueError"
  by code_simp

section \<open>Skipped entries and the whole mapper\<close>

lemma process_entry_agree_off:
  assumes "agree_off ks s t"
  shows "rel_sum (=) (agree_off ks)
           (process_entry maxd pm vm s kv) (process_entry maxd pm vm t kv)"
proof -
  obtain key entry where kv: "kv = (key, entry)" by (cases kv)
  from assms have ids: "disk_id s = disk_id t" and tasks: "convert_tasks s = convert_tasks t"
    and maps: "\<And>k. k \<notin> set ks \<Longrightarrow> map_of (vmx_cfg s) k = map_of (vmx_cfg t) k"
    by (simp_all add: agree_off_def)
  have disk: "rel_sum (=) (agree_off ks) (disk_step vm key entry s) (disk_step vm key entry t)"
    by (cases "dict_item (disk_id t) (disk_family key)")
       (simp_all add: disk_step_eq ids tasks agree_off_def map_of_dict_set maps)
  have net: "rel_sum (=) (agree_off ks) (net_step maxd pm key entry s) (net_step maxd pm key entry t)"
    by (cases "py_int maxd (filter py_isdigit key)")
       (simp_all add: net_step_def Let_def ids tasks agree_off_def map_of_dict_set maps)
  show ?thesis
    using assms disk net by (simp add: kv process_entry_eq)
qed

lemma process_items_agree_off:
  assumes "agree_off ks s t"
  shows "rel_sum (=) (agree_off ks)
           (process_items maxd pm vm items s) (process_items maxd pm vm items t)"
  using assms
proof (induction items arbitrary: s t)
  case Nil
  then show ?case by simp
next
  case (Cons kv items)
  note turn = process_entry_agree_off [OF Cons.prems, of maxd pm vm kv]
  show ?case
  proof (cases "process_entry maxd pm vm s kv")
    case (Inl e)
    with turn show ?thesis
      by (cases "process_entry maxd pm vm t kv") simp_all
  next
    case s1: (Inr s1)
    show ?thesis
    proof (cases "process_entry maxd pm vm t kv")
      case (Inl e)
      with turn s1 show ?thesis by simp
    next
      case t1: (Inr t1)
      with turn s1 have "agree_off ks s1 t1" by simp
      from Cons.IH [OF this] s1 t1 show ?thesis by simp
    qed
  qed
qed


lemma uuid_cfg_agree:
  assumes "\<And>k. k \<notin> set ks \<Longrightarrow> map_of a k = map_of b k"
  shows "rel_sum (=) (\<lambda>a' b'. \<forall>k. k \<notin> set ks \<longrightarrow> map_of a' k = map_of b' k)
           (uuid_cfg cfg a) (uuid_cfg cfg b)"
proof (cases "dict_contains ''smbios1'' cfg")
  case False
  with assms show ?thesis by (simp add: uuid_cfg_def)
next
  case True
  then obtain v where v: "dict_item cfg ''smbios1'' = Inr v"
    by (auto simp: dict_contains_def dict_item_def)
  show ?thesis
  proof (cases "py_in ''uuid='' v")
    case False
    with True v assms show ?thesis by (simp add: uuid_cfg_def)
  next
    case found: True
    show ?thesis
      using True v found assms
      by (cases "py_index (py_split ''uuid='' v) 1")
         (simp_all add: uuid_cfg_def map_of_dict_set)
  qed
qed

lemma disk_key_lookups:
  assumes "re_match_name_digit [''sata'', ''scsi'', ''efidisk''] key"
  shows "map_of (pre @ (key, entry) # post) ''name'' = map_of (pre @ post) ''name''"
    "map_of (pre @ (key, entry) # post) ''cores'' = map_of (pre @ post) ''cores''"
    "map_of (pre @ (key, entry) # post) ''memory'' = map_of (pre @ post) ''memory''"
    "map_of (pre @ (key, entry) # post) ''ostype'' = map_of (pre @ post) ''ostype''"
    "map_of (pre @ (key, entry) # post) ''bios'' = map_of (pre @ post) ''bios''"
    "map_of (pre @ (key, entry) # post) ''smbios1'' = map_of (pre @ post) ''smbios1''"
proof -
  have m: "map_of (pre @ (key, entry) # post) k = map_of (pre @ post) k"
    if "k \<in> set [''name'', ''cores'', ''memory'', ''ostype'', ''bios'', ''smbios1'']" for k
    using that disk_key_not_scalar [OF assms] by (intro map_of_without_entry) auto
  show "map_of (pre @ (key, entry) # post) ''name'' = map_of (pre @ post) ''name''"
    "map_of (pre @ (key, entry) # post) ''cores'' = map_of (pre @ post) ''cores''"
    "map_of (pre @ (key, entry) # post) ''memory'' = map_of (pre @ post) ''memory''"
    "map_of (pre @ (key, entry) # post) ''ostype'' = map_of (pre @ post) ''ostype''"
    "map_of (pre @ (key, entry) # post) ''bios'' = map_of (pre @ post) ''bios''"
    "map_of (pre @ (key, entry) # post) ''smbios1'' = map_of (pre @ post) ''smbios1''"
    by (rule m, simp)+
qed

lemma skipped_entry_mapper:
  assumes "re_match_name_digit [''sata'', ''scsi'', ''efidisk''] key"
    and "startswith entry ''none,media=cdrom''"
  shows "rel_sum (=)
           (\<lambda>r r'. snd r = snd r' \<and>
              (\<forall>k. k \<notin> set [''firmware'', ''efi.present''] \<longrightarrow> dict_get (fst r) k = dict_get (fst r') k))
           (process_conf maxd (pre @ (key, entry) # post) pm)
           (process_conf maxd (pre @ post) pm)"
proof -
  define cfg where "cfg = pre @ (key, entry) # post"
  define cfg' where "cfg' = pre @ post"
  define vm where "vm = dict_get_default cfg' ''name'' []"
  note ms = disk_key_lookups [OF assms(1), of pre entry post, folded cfg_def cfg'_def]
  have scalar: "scalar_cfg cfg = scalar_cfg cfg'"
    by (simp only: scalar_cfg_def dict_get_default_def ms)
  have uuid: "uuid_cfg cfg = uuid_cfg cfg'"
    by (intro ext) (simp only: uuid_cfg_def dict_item_def dict_contains_def ms)
  have name: "dict_get_default cfg ''name'' [] = vm"
    by (simp only: vm_def dict_get_default_def ms)
  have loop: "process_items maxd pm vm cfg = process_items maxd pm vm cfg'"
    using skipped_entry_loop [OF assms] by (intro ext) (simp add: cfg_def cfg'_def)
  have fw: "map_of (firmware_cfg cfg (scalar_cfg cfg')) k = map_of (firmware_cfg cfg' (scalar_cfg cfg')) k"
    if "k \<notin> set [''firmware'', ''efi.present'']" for k
    using that by (simp add: firmware_cfg_def map_of_dict_set)
  note start = uuid_cfg_agree [of "[''firmware'', ''efi.present'']"
      "firmware_cfg cfg (scalar_cfg cfg')" "firmware_cfg cfg' (scalar_cfg cfg')" cfg', OF fw]
  have conf: "process_conf maxd c pm =
      bind (uuid_cfg c (firmware_cfg c (scalar_cfg c))) (\<lambda>vmx.
      bind (process_items maxd pm (dict_get_default c ''name'' []) c
              \<lparr>vmx_cfg = vmx, convert_tasks = [], disk_id = [(''sata0'', 0), (''scsi0'', 0)]\<rparr>)
           (\<lambda>s. Inr (vmx_cfg s, convert_tasks s)))" for c
    by (simp add: process_conf_def)
  have "rel_sum (=)
           (\<lambda>r r'. snd r = snd r' \<and>
              (\<forall>k. k \<notin> set [''firmware'', ''efi.present''] \<longrightarrow> dict_get (fst r) k = dict_get (fst r') k))
           (process_conf maxd cfg pm) (process_conf maxd cfg' pm)"
  proof (cases "uuid_cfg cfg' (firmware_cfg cfg (scalar_cfg cfg'))")
    case (Inl e)
    with start show ?thesis
      by (cases "uuid_cfg cfg' (firmware_cfg cfg' (scalar_cfg cfg'))")
         (simp_all add: conf scalar uuid)
  next
    case a: (Inr a)
    show ?thesis
    proof (cases "uuid_cfg cfg' (firmware_cfg cfg' (scalar_cfg cfg'))")
      case (Inl e)
      with start a show ?thesis by simp
    next
      case b: (Inr b)
      define s0 where
        "s0 = \<lparr>vmx_cfg = a, convert_tasks = [], disk_id = [(''sata0'', 0), (''scsi0'', 0)]\<rparr>"
      define t0 where
        "t0 = \<lparr>vmx_cfg = b, convert_tasks = [], disk_id = [(''sata0'', 0), (''scsi0'', 0)]\<rparr>"
      from start a b have "agree_off [''firmware'', ''efi.present''] s0 t0"
        by (simp add: agree_off_def s0_def t0_def)
      note run = process_items_agree_off [OF this, of maxd pm vm cfg']
      have left: "process_conf maxd cfg pm =
          bind (process_items maxd pm vm cfg' s0) (\<lambda>s. Inr (vmx_cfg s, convert_tasks s))"
        by (simp add: conf scalar uuid a name loop s0_def)
      have right: "process_conf maxd cfg' pm =
          bind (process_items maxd pm vm cfg' t0) (\<lambda>s. Inr (vmx_cfg s, convert_tasks s))"
        by (simp add: conf b vm_def t0_def)
      show ?thesis
      proof (cases "process_items maxd pm vm cfg' s0")
        case (Inl e)
        with run show ?thesis
          by (cases "process_items maxd pm vm cfg' t0") (simp_all add: left right)
      next
        case s: (Inr s)
        show ?thesis
        proof (cases "process_items maxd pm vm cfg' t0")
          case (Inl e)
          with run s show ?thesis by simp
        next
          case t: (Inr t)
          with run s have "agree_off [''firmware'', ''efi.present''] s t" by simp
          then show ?thesis
            by (simp add: left right s t agree_off_def dict_get_def)
        qed
      qed
    qed
  qed
  then show ?thesis by (simp only: cfg_def cfg'_def)
qed


lemma skipped_entry_same_result:
  assumes "re_match_name_digit [''sata'', ''scsi'', ''efidisk''] key"
    and "startswith entry ''none,media=cdrom''"
    and "key \<noteq> ''efidisk0'' \<or> dict_get (pre @ post) ''bios'' = Some ''ovmf'' \<or>
         dict_contains ''efidisk0'' (pre @ post)"
  shows "process_conf maxd (pre @ (key, entry) # post) pm = process_conf maxd (pre @ post) pm"
proof -
  define cfg where "cfg = pre @ (key, entry) # post"
  define cfg' where "cfg' = pre @ post"
  note ms = disk_key_lookups [OF assms(1), of pre entry post, folded cfg_def cfg'_def]
  have scalar: "scalar_cfg cfg = scalar_cfg cfg'"
    by (simp only: scalar_cfg_def dict_get_default_def ms)
  have uuid: "uuid_cfg cfg = uuid_cfg cfg'"
    by (intro ext) (simp only: uuid_cfg_def dict_item_def dict_contains_def ms)
  have name: "dict_get_default cfg ''name'' [] = dict_get_default cfg' ''name'' []"
    by (simp only: dict_get_default_def ms)
  have loop: "process_items maxd pm vm cfg = process_items maxd pm vm cfg'" for vm
    using skipped_entry_loop [OF assms(1,2)] by (intro ext) (simp add: cfg_def cfg'_def)
  have bios: "dict_get cfg ''bios'' = dict_get cfg' ''bios''"
    by (simp only: dict_get_def ms)
  have efi: "(dict_get cfg ''bios'' = Some ''ovmf'' \<or> dict_contains ''efidisk0'' cfg) =
      (dict_get cfg' ''bios'' = Some ''ovmf'' \<or> dict_contains ''efidisk0'' cfg')"
  proof (cases "key = ''efidisk0''")
    case True
    then have "dict_contains ''efidisk0'' cfg"
      by (simp add: dict_contains_def cfg_def map_add_def split: option.splits)
    moreover from True assms(3)
    have "dict_get cfg' ''bios'' = Some ''ovmf'' \<or> dict_contains ''efidisk0'' cfg'"
      by (simp add: cfg'_def)
    ultimately show ?thesis by simp
  next
    case False
    then have "map_of cfg ''efidisk0'' = map_of cfg' ''efidisk0''"
      unfolding cfg_def cfg'_def by (intro map_of_without_entry) simp
    then show ?thesis
      by (simp only: dict_contains_def bios)
  qed
  have firmware: "firmware_cfg cfg = firmware_cfg cfg'"
    by (intro ext) (simp only: firmware_cfg_def efi)
  have "process_conf maxd cfg pm = process_conf maxd cfg' pm"
    by (simp only: process_conf_def scalar uuid name loop firmware)
  then show ?thesis by (simp only: cfg_def cfg'_def)
qed

text \<open>
  C7, as amended. A disk entry whose value begins with \<open>none,media=cdrom\<close> contributes
  nothing to the enumeration: its turn of the loop leaves the destination mapping, the
  conversion tasks and both slot counters as they are, and the loop over a mapping that holds
  the entry, at any position, gives what the loop gives without it, so that the disks after
  it get the same slot indices. The mapper gives for the mapping with the entry what it gives
  for the mapping without it, with one exception: under the key \<open>efidisk0\<close> the entry switches
  the firmware rule on, when neither \<open>bios\<close> nor another \<open>efidisk0\<close> does. Even then the outcome
  differs in nothing but the keys \<open>firmware\<close> and \<open>efi.present\<close>: the same error or, with the same
  conversion tasks, the same value under every other destination key.
\<close>

theorem empty_cdrom_contributes_nothing:
  assumes "re_match_name_digit [''sata'', ''scsi'', ''efidisk''] key"
    and "startswith entry ''none,media=cdrom''"
  shows "process_entry maxd pm vm s (key, entry) = Inr s \<and>
         process_items maxd pm vm (pre @ (key, entry) # post) s0 =
           process_items maxd pm vm (pre @ post) s0 \<and>
         (key \<noteq> ''efidisk0'' \<or> dict_get (pre @ post) ''bios'' = Some ''ovmf'' \<or>
            dict_contains ''efidisk0'' (pre @ post) \<longrightarrow>
          process_conf maxd (pre @ (key, entry) # post) pm = process_conf maxd (pre @ post) pm) \<and>
         rel_sum (=)
           (\<lambda>r r'. snd r = snd r' \<and>
              (\<forall>k. k \<notin> set [''firmware'', ''efi.present''] \<longrightarrow> dict_get (fst r) k = dict_get (fst r') k))
           (process_conf maxd (pre @ (key, entry) # post) pm)
           (process_conf maxd (pre @ post) pm)"
  using skipped_entry_loop [OF assms, of maxd pm vm s pre post s0]
    skipped_entry_same_result [OF assms, of pre post maxd pm]
    skipped_entry_mapper [OF assms, of maxd pre post pm]
  by blast

theorem empty_cdrom_contributes_nothing_witness:
  "re_match_name_digit [''sata'', ''scsi'', ''efidisk''] ''sata1'' \<and>
   startswith ''none,media=cdrom,size=0'' ''none,media=cdrom'' \<and>
   process_conf 4300
     ([(''name'', ''vm1''), (''sata0'', ''s:a.raw'')] @
      (''sata1'', ''none,media=cdrom,size=0'') # [(''sata2'', ''s:b.raw'')]) False =
   process_conf 4300
     ([(''name'', ''vm1''), (''sata0'', ''s:a.raw'')] @ [(''sata2'', ''s:b.raw'')]) False"
proof -
  have h1: "re_match_name_digit [''sata'', ''scsi'', ''efidisk''] ''sata1''"
    by code_simp
  have h2: "startswith ''none,media=cdrom,size=0'' ''none,media=cdrom''"
    by code_simp
  have h3: "''sata1'' \<noteq> ''efidisk0''"
    by simp
  show ?thesis
    using h1 h2 h3
      empty_cdrom_contributes_nothing [OF h1 h2,
        where pre = "[(''name'', ''vm1''), (''sata0'', ''s:a.raw'')]"
        and post = "[(''sata2'', ''s:b.raw'')]" and maxd = 4300 and pm = False]
    by blast
qed

text \<open>
  The claim as stated fails: under the key \<open>efidisk0\<close> an entry with the marker adds the keys
  \<open>firmware\<close> and \<open>efi.present\<close> to the destination mapping, by line 105.
\<close>

theorem empty_cdrom_contributes_nothing_counterexample:
  "re_match_name_digit [''sata'', ''scsi'', ''efidisk''] ''efidisk0'' \<and>
   startswith ''none,media=cdrom'' ''none,media=cdrom'' \<and>
   process_conf 4300 [(''efidisk0'', ''none,media=cdrom'')] False =
     Inr ([(''.encoding'', ''UTF-8''), (''displayName'', []), (''numvcpus'', ''1''),
           (''memsize'', ''4096''), (''guestOS'', ''other-64''), (''tools.syncTime'', ''TRUE''),
           (''virtualHW.version'', ''19''), (''config.version'', ''8''),
           (''firmware'', ''efi''), (''efi.present'', ''TRUE'')], []) \<and>
   process_conf 4300 [] False =
     Inr ([(''.encoding'', ''UTF-8''), (''displayName'', []), (''numvcpus'', ''1''),
           (''memsize'', ''4096''), (''guestOS'', ''other-64''), (''tools.syncTime'', ''TRUE''),
           (''virtualHW.version'', ''19''), (''config.version'', ''8'')], [])"
  by code_simp

end
